theory Spec2Isabelle
  imports Main "HOL-Library.Sublist"
begin

section \<open>The warm-transfer page (the React component \<open>WarmTransferPage\<close>)\<close>

subsection \<open>Types of the page\<close>

datatype UserRole = Caller | Agent_a | Agent_b

datatype TransferStep = Idle | Briefing | Completing | Completed

text \<open>
  A LiveKit \<open>Room\<close> object is identified by what \<open>connect(url, token)\<close> was given: the
  token is scoped to one room and one identity. A \<open>Participant\<close> is read only through
  its \<open>identity\<close>.
\<close>

record Room =
  conn_url :: string
  conn_token :: string

datatype Participant = Participant (identity: string)

record CallSession =
  call_id :: string
  room_name :: string
  caller_token :: string
  agent_a_token :: string
  livekit_url :: string
  status :: string

text \<open>
  The interface \<open>TransferSession\<close> repeats three field names of \<open>CallSession\<close>
  (\<open>caller_token\<close>, \<open>livekit_url\<close>, \<open>status\<close>); they carry the prefix \<open>transfer_\<close> here.
\<close>

record TransferSession =
  transfer_id :: string
  agentA_transfer_token :: string
  agentB_token :: string
  transfer_caller_token :: string
  transfer_room :: string
  transfer_livekit_url :: string
  summary :: string
  agent_script :: string
  transfer_status :: string

text \<open>The payload of \<open>GET /calls/latest\<close>, kept in the state \<open>latestCall\<close>.\<close>

record LatestCall =
  latest_call_id :: string
  latest_caller_name :: string
  latest_room_name :: string

text \<open>
  The \<open>useState\<close> cells and the ref \<open>roomRef\<close> of the component that the handlers
  below read or write. \<open>localAudioTrack\<close> only records whether a track exists.
\<close>

record page_state =
  userRole :: UserRole
  userName :: string
  latestCall :: "LatestCall option"
  room :: "Room option"
  roomRef :: "Room option"
  isConnected :: bool
  isConnecting :: bool
  participants :: "Participant list"
  currentCallSession :: "CallSession option"
  currentTransfer :: "TransferSession option"
  localAudioTrack :: bool
  transcript :: string
  isTransferring :: bool
  transferStep :: TransferStep
  callSummary :: string
  agentScript :: string
  showTransferModal :: bool
  error :: string
  logs :: "string list"

subsection \<open>The activity log\<close>

text \<open>
  JavaScript's \<open>prev.slice(-n)\<close>: the last \<open>n\<close> elements, the whole array when it is
  shorter. The subtraction on \<open>nat\<close> stops at 0, which is \<open>max(length - n, 0)\<close>.
\<close>

definition slice_last :: "nat \<Rightarrow> 'a list \<Rightarrow> 'a list" where
  "slice_last n xs = drop (length xs - n) xs"

text \<open>
  \<open>addLog\<close>: \<open>setLogs((prev) => [...prev.slice(-9), `[${timestamp}] ${message}`])\<close>.
  The timestamp is \<open>new Date().toLocaleTimeString()\<close>, an input of the model.
\<close>

definition log_entry :: "string \<Rightarrow> string \<Rightarrow> string" where
  "log_entry timestamp message = ''['' @ timestamp @ ''] '' @ message"

definition addLog :: "string \<Rightarrow> string \<Rightarrow> page_state \<Rightarrow> page_state" where
  "addLog timestamp message s =
     s\<lparr>logs := slice_last 9 (logs s) @ [log_entry timestamp message]\<rparr>"

text \<open>A run of \<open>addLog\<close> calls, each with its own timestamp and message.\<close>

fun addLogs :: "(string \<times> string) list \<Rightarrow> page_state \<Rightarrow> page_state" where
  "addLogs [] s = s"
| "addLogs ((timestamp, message) # rest) s = addLogs rest (addLog timestamp message s)"

subsection \<open>What the environment answers\<close>

text \<open>
  A promise of the media library either resolves or rejects; an HTTP request fails on
  the network, comes back with a status that is not \<open>ok\<close>, or comes back \<open>ok\<close> with
  a JSON body.
\<close>

datatype settled = Rejected | Resolved

datatype 'a response = NetworkError | HttpStatus nat | HttpOk 'a

datatype js_error = PromiseRejected

text \<open>
  What the media platform does during one run of a handler: how \<open>connect\<close>,
  \<open>publishTrack\<close> and \<open>disconnect\<close> settle, whether the room that is left emits
  \<open>RoomEvent.Disconnected\<close>, and the remote participants of the room that is joined.
\<close>

record media =
  connect_settles :: settled
  publish_settles :: settled
  disconnect_settles :: settled
  emits_disconnected :: bool
  remote_participants :: "Participant list"

subsection \<open>Room event handlers (\<open>setupRoomEvents\<close>)\<close>

text \<open>
  \<open>RoomEvent.Connected\<close>: log, \<open>setIsConnected(true)\<close>, \<open>setIsConnecting(false)\<close> and
  the remote participants of the room. \<open>RoomEvent.Disconnected\<close>: log,
  \<open>setIsConnected(false)\<close>, no participants.
\<close>

definition onConnected :: "string \<Rightarrow> string \<Rightarrow> Participant list \<Rightarrow> page_state \<Rightarrow> page_state" where
  "onConnected timestamp name remote s =
     (addLog timestamp (''Connected to room: '' @ name) s)
       \<lparr>isConnected := True, isConnecting := False, participants := remote\<rparr>"

definition onDisconnected :: "string \<Rightarrow> page_state \<Rightarrow> page_state" where
  "onDisconnected timestamp s =
     (addLog timestamp ''Disconnected from room'' s)
       \<lparr>isConnected := False, participants := []\<rparr>"

text \<open>
  \<open>RoomEvent.ParticipantConnected\<close> appends the participant;
  \<open>RoomEvent.ParticipantDisconnected\<close> filters its identity out.
\<close>

definition onParticipantConnected :: "string \<Rightarrow> Participant \<Rightarrow> page_state \<Rightarrow> page_state" where
  "onParticipantConnected timestamp p s =
     (let s1 = addLog timestamp (''Participant connected: '' @ identity p) s
      in s1\<lparr>participants := participants s1 @ [p]\<rparr>)"

definition onParticipantDisconnected :: "string \<Rightarrow> Participant \<Rightarrow> page_state \<Rightarrow> page_state" where
  "onParticipantDisconnected timestamp p s =
     (let s1 = addLog timestamp (''Participant disconnected: '' @ identity p) s
      in s1\<lparr>participants := filter (\<lambda>q. identity q \<noteq> identity p) (participants s1)\<rparr>)"

subsection \<open>\<open>fetchLatestCall\<close>\<close>

text \<open>
  The part of \<open>fetchLatestCall\<close> after the \<open>fetch\<close>: status 404 stores \<open>null\<close>; any
  other failure is thrown and caught, and the handler stores \<open>null\<close> as well.
\<close>

definition fetchLatestCall :: "string \<Rightarrow> LatestCall response \<Rightarrow> page_state \<Rightarrow> page_state" where
  "fetchLatestCall timestamp resp s =
     (case resp of
        HttpStatus code \<Rightarrow>
          (if code = 404 then s\<lparr>latestCall := None\<rparr> else s\<lparr>latestCall := None\<rparr>)
      | NetworkError \<Rightarrow> s\<lparr>latestCall := None\<rparr>
      | HttpOk data \<Rightarrow>
          addLog timestamp
            (''Found latest call: '' @ latest_caller_name data @ '' in room '' @ latest_room_name data)
            (s\<lparr>latestCall := Some data\<rparr>))"

subsection \<open>\<open>disconnectCall\<close>\<close>

text \<open>
  \<open>await room.disconnect()\<close> stands outside any \<open>try\<close>: when it rejects, the handler
  stops there and nothing is written. When it resolves, the room that is left may emit
  \<open>RoomEvent.Disconnected\<close>, whose handler runs before the rest.
\<close>

definition disconnectCall :: "string \<Rightarrow> settled \<Rightarrow> bool \<Rightarrow> page_state \<Rightarrow> js_error + page_state" where
  "disconnectCall timestamp disconnect emits s =
     (let finish = (\<lambda>s1.
            addLog timestamp ''Disconnected from call''
              (s1\<lparr>isConnected := False, participants := [], currentCallSession := None,
                  currentTransfer := None, transferStep := Idle, isTransferring := False,
                  showTransferModal := False, transcript := [], callSummary := [],
                  agentScript := []\<rparr>))
      in case room s of
           None \<Rightarrow> Inr (finish s)
         | Some r \<Rightarrow>
             (case disconnect of
                Rejected \<Rightarrow> Inl PromiseRejected
              | Resolved \<Rightarrow>
                  Inr (finish ((if emits then onDisconnected timestamp s else s)
                                 \<lparr>room := None, roomRef := None\<rparr>))))"

subsection \<open>The caller's transfer-status poll\<close>

text \<open>
  \<open>userName.trim()\<close> is falsy exactly when every character of the name is white space.
\<close>

definition is_space :: "char \<Rightarrow> bool" where
  "is_space c = (c \<in> set [CHR '' '', CHR 0x09, CHR 0x0A, CHR 0x0B, CHR 0x0C, CHR 0x0D, CHR 0xA0])"

definition blank :: "string \<Rightarrow> bool" where
  "blank name = list_all is_space name"

text \<open>
  The body of \<open>GET /caller/{name}/transfer-status\<close> as the page reads it:
  \<open>data.transfer_complete\<close>, \<open>data.final_room\<close>, \<open>data.caller_token\<close>.
\<close>

record TransferStatus =
  transfer_complete :: bool
  final_room :: string
  data_caller_token :: string

text \<open>
  \<open>checkCallerTransferStatus\<close> and \<open>connectToFinalRoom\<close> are closures of one render:
  the callback given to \<open>setInterval\<close> keeps the \<open>userName\<close>, \<open>room\<close>,
  \<open>currentTransfer\<close> and \<open>localAudioTrack\<close> of the render whose effect installed it.
\<close>

record closure =
  cl_userName :: string
  cl_room :: "Room option"
  cl_currentTransfer :: "TransferSession option"
  cl_localAudioTrack :: bool

definition capture :: "page_state \<Rightarrow> closure" where
  "capture s = \<lparr>cl_userName = userName s, cl_room = room s,
      cl_currentTransfer = currentTransfer s, cl_localAudioTrack = localAudioTrack s\<rparr>"

text \<open>The \<open>catch\<close> block of \<open>connectToFinalRoom\<close>.\<close>

definition connectFailed :: "string \<Rightarrow> page_state \<Rightarrow> page_state" where
  "connectFailed timestamp s =
     (addLog timestamp ''Failed to connect to final room'' s)
       \<lparr>error := ''Failed to connect to final room''\<rparr>"

text \<open>
  \<open>connectToFinalRoom(token, roomName)\<close>. The URL is read from
  \<open>currentTransfer!.livekit_url\<close>: with \<open>currentTransfer\<close> null this throws a
  \<open>TypeError\<close> inside the \<open>try\<close>, before \<open>connect\<close> is called. A \<open>connect\<close> that
  resolves has emitted \<open>RoomEvent.Connected\<close> on the new room.
\<close>

definition connectToFinalRoom ::
  "string \<Rightarrow> closure \<Rightarrow> media \<Rightarrow> string \<Rightarrow> string \<Rightarrow> page_state \<Rightarrow> page_state" where
  "connectToFinalRoom timestamp cl m token roomName s =
     (let s1 = addLog timestamp (''Attempting to connect caller to final room: '' @ roomName) s
      in case cl_currentTransfer cl of
           None \<Rightarrow> connectFailed timestamp s1
         | Some t \<Rightarrow>
             (case connect_settles m of
                Rejected \<Rightarrow> connectFailed timestamp s1
              | Resolved \<Rightarrow>
                  (let s2 = addLog timestamp ''Successfully connected to LiveKit server''
                              (onConnected timestamp roomName (remote_participants m) s1);
                       finalRoom = \<lparr>conn_url = transfer_livekit_url t, conn_token = token\<rparr>;
                       finish = (\<lambda>s4.
                         addLog timestamp ''Transfer complete - caller is now with Agent B''
                           (addLog timestamp
                              (''Caller successfully connected to final room with Agent B: '' @ roomName)
                              (s4\<lparr>room := Some finalRoom, roomRef := Some finalRoom\<rparr>)))
                   in if cl_localAudioTrack cl \<and> publish_settles m = Rejected
                      then connectFailed timestamp s2
                      else
                        (let s3 = (if cl_localAudioTrack cl
                                   then addLog timestamp ''Published caller audio track'' s2
                                   else s2)
                         in case cl_room cl of
                              None \<Rightarrow> finish s3
                            | Some old \<Rightarrow>
                                (case disconnect_settles m of
                                   Rejected \<Rightarrow> connectFailed timestamp s3
                                 | Resolved \<Rightarrow>
                                     finish (addLog timestamp ''Disconnected from previous room''
                                       (if emits_disconnected m
                                        then onDisconnected timestamp s3 else s3)))))))"

text \<open>
  \<open>connectToBriefingRoom(transferSession)\<close>, which \<open>initiateTransfer\<close> calls for
  Agent A once its request has succeeded. The briefing room connects first (its
  \<open>RoomEvent.Connected\<close> handler runs), then the room of the render is left (its
  \<open>RoomEvent.Disconnected\<close> handler runs), then \<open>setRoom(briefingRoom)\<close>. The \<open>catch\<close>
  block only sets the error text.
\<close>

definition connectToBriefingRoom ::
  "string \<Rightarrow> closure \<Rightarrow> media \<Rightarrow> TransferSession \<Rightarrow> page_state \<Rightarrow> page_state" where
  "connectToBriefingRoom timestamp cl m transferSession s =
     (let failed = (\<lambda>s4. s4\<lparr>error := ''Failed to connect to briefing room''\<rparr>);
          briefingRoom = \<lparr>conn_url = transfer_livekit_url transferSession,
                          conn_token = agentA_transfer_token transferSession\<rparr>;
          finish = (\<lambda>s4. addLog timestamp ''Connected to briefing room''
                            (s4\<lparr>room := Some briefingRoom, roomRef := Some briefingRoom\<rparr>))
      in case connect_settles m of
           Rejected \<Rightarrow> failed s
         | Resolved \<Rightarrow>
             (let s1 = onConnected timestamp (transfer_room transferSession)
                         (remote_participants m) s
              in if cl_localAudioTrack cl \<and> publish_settles m = Rejected then failed s1
                 else
                   (case cl_room cl of
                      None \<Rightarrow> finish s1
                    | Some old \<Rightarrow>
                        (case disconnect_settles m of
                           Rejected \<Rightarrow> failed s1
                         | Resolved \<Rightarrow>
                             finish (if emits_disconnected m
                                     then onDisconnected timestamp s1 else s1)))))"

text \<open>The requests the page sends to the polled endpoints.\<close>

datatype request = GetLatestCall | GetTransferStatus string

text \<open>
  \<open>checkCallerTransferStatus\<close>: the request it sends (none for a blank name) and the
  state after the response has been handled. A response that is not \<open>ok\<close> is logged
  and dropped; a failed \<open>fetch\<close> is caught and logged. The log texts are written
  without the pictographs and the serialised payloads of the source.
\<close>

definition checkCallerTransferStatus ::
  "string \<Rightarrow> closure \<Rightarrow> TransferStatus response \<Rightarrow> media \<Rightarrow> page_state
     \<Rightarrow> request option \<times> page_state" where
  "checkCallerTransferStatus timestamp cl resp m s =
     (if blank (cl_userName cl) then (None, s)
      else
        (let s1 = addLog timestamp (''Checking transfer status for caller: '' @ cl_userName cl) s
         in (Some (GetTransferStatus (cl_userName cl)),
             case resp of
               NetworkError \<Rightarrow> addLog timestamp ''Error checking transfer status'' s1
             | HttpStatus code \<Rightarrow>
                 addLog timestamp (''No transfer status found for '' @ cl_userName cl) s1
             | HttpOk data \<Rightarrow>
                 (let s2 = addLog timestamp ''Transfer status response'' s1
                  in if transfer_complete data
                     then connectToFinalRoom timestamp cl m (data_caller_token data) (final_room data)
                            (addLog timestamp
                               (''Transfer completed! Joining Agent B in room: '' @ final_room data) s2)
                     else s2))))"

subsection \<open>The two polling effects\<close>

text \<open>
  Besides the React state the running page holds its timers and, for the properties
  below, the list of poll requests sent so far. The Agent A timer calls
  \<open>fetchLatestCall\<close>, which reads no state; the caller timer holds its closure.
\<close>

record client =
  page :: page_state
  latestCallInterval :: bool
  callerStatusInterval :: "closure option"
  requests :: "request list"

text \<open>
  \<open>useEffect(..., [userRole, isConnected])\<close>: the cleanup of the previous run clears
  its interval; then, for Agent A while not connected, \<open>fetchLatestCall()\<close> is called
  at once and an interval of 3 seconds is installed.
\<close>

definition latestCallEffect :: "client \<Rightarrow> client" where
  "latestCallEffect c =
     (let c1 = c\<lparr>latestCallInterval := False\<rparr>
      in if userRole (page c1) = Agent_a \<and> \<not> isConnected (page c1)
         then c1\<lparr>requests := requests c1 @ [GetLatestCall], latestCallInterval := True\<rparr>
         else c1)"

text \<open>
  \<open>useEffect(..., [userRole, isConnected, userName])\<close>: for a connected caller with a
  name that is not blank, an interval of 3 seconds calling \<open>checkCallerTransferStatus\<close>.
\<close>

definition callerStatusEffect :: "client \<Rightarrow> client" where
  "callerStatusEffect c =
     (let c1 = c\<lparr>callerStatusInterval := None\<rparr>
      in if userRole (page c1) = Caller \<and> isConnected (page c1) \<and> \<not> blank (userName (page c1))
         then c1\<lparr>callerStatusInterval := Some (capture (page c1))\<rparr>
         else c1)"

text \<open>
  After a render React re-runs an effect exactly when one of its dependencies differs
  from the previous render's.
\<close>

definition commit :: "page_state \<Rightarrow> client \<Rightarrow> client" where
  "commit prev c =
     (let c1 = (if (userRole (page c), isConnected (page c)) = (userRole prev, isConnected prev)
                then c else latestCallEffect c)
      in if (userRole (page c1), isConnected (page c1), userName (page c1))
              = (userRole prev, isConnected prev, userName prev)
         then c1 else callerStatusEffect c1)"

text \<open>Mounting the component runs both effects once.\<close>

definition mount :: "page_state \<Rightarrow> client" where
  "mount s = callerStatusEffect (latestCallEffect
     \<lparr>page = s, latestCallInterval = False, callerStatusInterval = None, requests = []\<rparr>)"

text \<open>The initial values of the \<open>useState\<close> cells.\<close>

definition initial_page :: page_state where
  "initial_page = \<lparr>userRole = Caller, userName = [], latestCall = None, room = None,
     roomRef = None, isConnected = False, isConnecting = False, participants = [],
     currentCallSession = None, currentTransfer = None, localAudioTrack = False,
     transcript = [], isTransferring = False, transferStep = Idle, callSummary = [],
     agentScript = [], showTransferModal = False, error = [], logs = []\<rparr>"

text \<open>
  What can happen to the page. \<open>Handler f\<close> is any other handler of the component
  (\<open>startCall\<close>, \<open>initiateTransfer\<close>, \<open>joinActiveTransfer\<close>, ...): it writes React
  state and \<open>roomRef\<close>, and cannot reach the timers.
\<close>

datatype event =
    SetUserRole UserRole
  | SetUserName string
  | RoomConnected string "Participant list"
  | RoomDisconnected
  | ParticipantConnected Participant
  | ParticipantDisconnected Participant
  | LatestCallTick
  | LatestCallResponse "LatestCall response"
  | CallerStatusTick "TransferStatus response" media
  | DisconnectCall settled bool
  | Handler "page_state \<Rightarrow> page_state"

definition handle :: "string \<Rightarrow> event \<Rightarrow> client \<Rightarrow> client" where
  "handle timestamp e c =
     (case e of
        SetUserRole r \<Rightarrow> c\<lparr>page := (page c)\<lparr>userRole := r\<rparr>\<rparr>
      | SetUserName n \<Rightarrow> c\<lparr>page := (page c)\<lparr>userName := n\<rparr>\<rparr>
      | RoomConnected name remote \<Rightarrow> c\<lparr>page := onConnected timestamp name remote (page c)\<rparr>
      | RoomDisconnected \<Rightarrow> c\<lparr>page := onDisconnected timestamp (page c)\<rparr>
      | ParticipantConnected p \<Rightarrow> c\<lparr>page := onParticipantConnected timestamp p (page c)\<rparr>
      | ParticipantDisconnected p \<Rightarrow> c\<lparr>page := onParticipantDisconnected timestamp p (page c)\<rparr>
      | LatestCallTick \<Rightarrow>
          (if latestCallInterval c then c\<lparr>requests := requests c @ [GetLatestCall]\<rparr> else c)
      | LatestCallResponse resp \<Rightarrow> c\<lparr>page := fetchLatestCall timestamp resp (page c)\<rparr>
      | CallerStatusTick resp m \<Rightarrow>
          (case callerStatusInterval c of
             None \<Rightarrow> c
           | Some cl \<Rightarrow>
               (case checkCallerTransferStatus timestamp cl resp m (page c) of
                  (None, s) \<Rightarrow> c\<lparr>page := s\<rparr>
                | (Some r, s) \<Rightarrow> c\<lparr>page := s, requests := requests c @ [r]\<rparr>))
      | DisconnectCall disconnect emits \<Rightarrow>
          (case disconnectCall timestamp disconnect emits (page c) of
             Inl err \<Rightarrow> c
           | Inr s \<Rightarrow> c\<lparr>page := s\<rparr>)
      | Handler f \<Rightarrow> c\<lparr>page := f (page c)\<rparr>)"

text \<open>One event: the handler runs, React renders, the effects whose dependencies changed re-run.\<close>

definition step :: "string \<Rightarrow> event \<Rightarrow> client \<Rightarrow> client" where
  "step timestamp e c = commit (page c) (handle timestamp e c)"

fun run :: "(string \<times> event) list \<Rightarrow> client \<Rightarrow> client" where
  "run [] c = c"
| "run ((timestamp, e) # rest) c = run rest (step timestamp e c)"

definition latestCallPolls :: "client \<Rightarrow> nat" where
  "latestCallPolls c = length (filter (\<lambda>r. r = GetLatestCall) (requests c))"

text \<open>
  The caller effect holds an interval exactly for a connected caller whose name is not
  blank; \<open>caller_inv\<close> says so of a running page, with the name the closure kept.
\<close>

definition callerPolling :: "page_state \<Rightarrow> bool" where
  "callerPolling s = (userRole s = Caller \<and> isConnected s \<and> \<not> blank (userName s))"

definition caller_inv :: "client \<Rightarrow> bool" where
  "caller_inv c =
     (case callerStatusInterval c of
        None \<Rightarrow> \<not> callerPolling (page c)
      | Some cl \<Rightarrow> callerPolling (page c) \<and> cl_userName cl = userName (page c))"

subsection \<open>Concrete runs of the page\<close>

text \<open>Agent A selects the role, one interval passes, then the room connects.\<close>

definition agentA_trace :: "(string \<times> event) list" where
  "agentA_trace = [(''10:00:00'', SetUserRole Agent_a), (''10:00:03'', LatestCallTick),
     (''10:00:04'', RoomConnected ''call_1'' [Participant ''Jane''])]"

text \<open>
  Agent A then holds the call's room, initiates a transfer and is taken to the briefing
  room: \<open>initiateTransfer\<close> calls \<open>connectToBriefingRoom\<close> from the render it was
  clicked in, and every media call resolves.
\<close>

definition briefing_session :: TransferSession where
  "briefing_session = \<lparr>transfer_id = ''T1'', agentA_transfer_token = ''briefing-token-a'',
     agentB_token = ''briefing-token-b'', transfer_caller_token = [],
     transfer_room = ''transfer_1'', transfer_livekit_url = ''ws://lk'',
     summary = ''Summary'', agent_script = ''Script'', transfer_status = ''briefing''\<rparr>"

definition media_resolves :: media where
  "media_resolves = \<lparr>connect_settles = Resolved, publish_settles = Resolved,
     disconnect_settles = Resolved, emits_disconnected = True,
     remote_participants = []\<rparr>"

definition agentA_joined_trace :: "(string \<times> event) list" where
  "agentA_joined_trace = agentA_trace
     @ [(''10:00:05'', Handler (\<lambda>s. s\<lparr>room := Some \<lparr>conn_url = ''ws://lk'', conn_token = ''call-token-a''\<rparr>,
                                      roomRef := Some \<lparr>conn_url = ''ws://lk'', conn_token = ''call-token-a''\<rparr>\<rparr>))]"

definition agentA_briefing_trace :: "(string \<times> event) list" where
  "agentA_briefing_trace = agentA_joined_trace
     @ [(''10:05:00'', Handler (\<lambda>s. connectToBriefingRoom ''10:05:00'' (capture s)
                                      media_resolves briefing_session s))]"

text \<open>A caller who started a call: the page holds no transfer session.\<close>

definition caller_trace :: "(string \<times> event) list" where
  "caller_trace =
     [(''10:00:00'', SetUserName ''Jane''),
      (''10:00:05'', RoomConnected ''call_1'' [Participant ''agent_a_Bob'']),
      (''10:00:06'', Handler (\<lambda>s. s\<lparr>room := Some \<lparr>conn_url = ''ws://lk'', conn_token = ''call-token''\<rparr>,
                                   roomRef := Some \<lparr>conn_url = ''ws://lk'', conn_token = ''call-token''\<rparr>\<rparr>))]"

definition completed_response :: "TransferStatus response" where
  "completed_response =
     HttpOk \<lparr>transfer_complete = True, final_room = ''transfer_1'', data_caller_token = ''final-token''\<rparr>"

definition media_ok :: media where
  "media_ok = \<lparr>connect_settles = Resolved, publish_settles = Resolved,
     disconnect_settles = Resolved, emits_disconnected = True, remote_participants = []\<rparr>"

text \<open>Agent A in the middle of a briefing, connected to a room.\<close>

definition briefing_page :: page_state where
  "briefing_page = initial_page
     \<lparr>userRole := Agent_a, userName := ''Bob'',
      room := Some \<lparr>conn_url = ''ws://lk'', conn_token = ''briefing-token''\<rparr>,
      roomRef := Some \<lparr>conn_url = ''ws://lk'', conn_token = ''briefing-token''\<rparr>,
      isConnected := True, participants := [Participant ''agent_b_Carol''],
      transcript := ''billing issue'', isTransferring := True, transferStep := Briefing,
      callSummary := ''Summary'', agentScript := ''Script'', showTransferModal := True\<rparr>"

section \<open>The room page (\<open>frontend/src/app/page.tsx\<close>)\<close>

text \<open>
  The state cell \<open>participants\<close> of this page is a list of identity strings. After
  \<open>joinRoom\<close> has connected, three things write it: the \<open>participantConnected\<close> and
  \<open>participantDisconnected\<close> handlers, and the snapshot that a \<open>setTimeout\<close> of one
  second takes of \<open>newRoom.participants\<close>. All three are closures of the \<open>joinRoom\<close>
  call and compare with the \<open>identity\<close> that call joined under (\<open>local\<close> below).
\<close>








section \<open>The orchestration core behind the page\<close>

text \<open>
  Modelled from the spec: the HTTP backend the page talks to (Session Registry,
  Transfer Registry, Orchestration API) is not among the repository's TypeScript
  sources. Every definition of this section follows the specification (sections 3, 4,
  6 and 7) and says which part.
\<close>

text \<open>Modelled from the spec: the registry-level errors of section 7.\<close>

datatype registry_error = NotFoundError | InvalidStateError | ConflictError

text \<open>
  Modelled from the spec: the lifecycle of a Call Session (\<open>active\<close>,
  \<open>transferring\<close>, \<open>completed\<close>) and of a Transfer Session (\<open>briefing\<close>,
  \<open>completed\<close>), section 3.
\<close>

datatype call_status = CallActive | CallTransferring | CallCompleted

datatype transfer_state = TransferBriefing | TransferCompleted

text \<open>
  Modelled from the spec: the Credential Issuer is an external service,
  \<open>mint(identity, room) -> credential\<close>, whose credentials are signed and time-bounded.
  A credential is identified by whom it is for, the room it is scoped to and when it was
  minted, so that two mints never give the same credential.
\<close>

record credential =
  cred_identity :: string
  cred_room :: string
  cred_minted_at :: nat

text \<open>
  Modelled from the spec: the Call Session of section 3 (call id, caller display name,
  opaque caller metadata, room name, lifecycle status, creation timestamp).
\<close>

record call_session =
  cs_call_id :: string
  cs_caller_name :: string
  cs_caller_info :: string
  cs_room_name :: string
  cs_status :: call_status
  cs_created_at :: nat

text \<open>
  Modelled from the spec: the Transfer Session of section 3 (transfer id, originating
  room, caller display name, target agent, transfer room, summary, briefing script,
  status, creation timestamp and, once completed, the final room and the caller's
  credential).
\<close>

record transfer_session =
  ts_transfer_id :: string
  ts_original_room :: string
  ts_caller_name :: string
  ts_agent_b :: string
  ts_transfer_room :: string
  ts_summary :: string
  ts_script :: string
  ts_status :: transfer_state
  ts_created_at :: nat
  ts_final_room :: "string option"
  ts_caller_credential :: "credential option"

text \<open>
  Modelled from the spec: the two in-memory registries, each a list with the most
  recently created session first, and the logical clock that stamps creations and
  mints. No session is ever removed (section 9: no expiry, no persistence).
\<close>

record registries =
  calls :: "call_session list"
  transfers :: "transfer_session list"
  clock :: nat

text \<open>Modelled from the spec: the registries at process start hold nothing (section 6).\<close>

definition empty_registries :: registries where
  "empty_registries = \<lparr>calls = [], transfers = [], clock = 0\<rparr>"

text \<open>
  Modelled from the spec: all existing room names, the original rooms of the calls and
  the transfer rooms (section 4.2, step 3).
\<close>

definition room_names :: "registries \<Rightarrow> string list" where
  "room_names s = map cs_room_name (calls s) @ map ts_transfer_room (transfers s)"

text \<open>Modelled from the spec: \<open>mint(identity, room)\<close> of the Credential Issuer (section 6).\<close>

definition mint :: "string \<Rightarrow> string \<Rightarrow> registries \<Rightarrow> credential \<times> registries" where
  "mint ident rm s =
     (\<lparr>cred_identity = ident, cred_room = rm, cred_minted_at = clock s\<rparr>,
      s\<lparr>clock := Suc (clock s)\<rparr>)"

text \<open>
  Modelled from the spec: \<open>createCall\<close> (section 4.1) allocates a fresh call id and room
  name and inserts the call with status \<open>active\<close>; it fails with \<open>ConflictError\<close> only
  if id generation collides after bounded retry. The draws of the id generator are
  an input: the first draw whose id no call has and whose room name no session holds
  is taken. (The spec's "unique against all currently-active rooms" is read as: against
  every room the registries hold, since no session is ever removed.)
\<close>

definition createCall ::
  "string \<Rightarrow> string \<Rightarrow> (string \<times> string) list \<Rightarrow> registries
     \<Rightarrow> registry_error + (call_session \<times> registries)" where
  "createCall callerName callerInfo draws s =
     (case find (\<lambda>(i, r). i \<notin> set (map cs_call_id (calls s)) \<and> r \<notin> set (room_names s)) draws of
        None \<Rightarrow> Inl ConflictError
      | Some (i, r) \<Rightarrow>
          (let c = \<lparr>cs_call_id = i, cs_caller_name = callerName, cs_caller_info = callerInfo,
                     cs_room_name = r, cs_status = CallActive, cs_created_at = clock s\<rparr>
           in Inr (c, s\<lparr>calls := c # calls s, clock := Suc (clock s)\<rparr>)))"

text \<open>
  Modelled from the spec: the Session Registry is indexed by room name (section 2);
  \<open>callInRoom\<close> is that lookup and \<open>setCallStatus\<close> the status transition of the
  call in a room.
\<close>

definition callInRoom :: "string \<Rightarrow> registries \<Rightarrow> call_session option" where
  "callInRoom rm s = find (\<lambda>c. cs_room_name c = rm) (calls s)"

definition setCallStatus :: "string \<Rightarrow> call_status \<Rightarrow> registries \<Rightarrow> registries" where
  "setCallStatus rm st s =
     s\<lparr>calls := map (\<lambda>c. if cs_room_name c = rm then c\<lparr>cs_status := st\<rparr> else c) (calls s)\<rparr>"

text \<open>
  Modelled from the spec: \<open>markTransferring(roomName)\<close> (section 4.1) fails with
  \<open>InvalidStateError\<close> if the call is not \<open>active\<close> or does not exist.
\<close>

definition markTransferring :: "string \<Rightarrow> registries \<Rightarrow> registry_error + registries" where
  "markTransferring rm s =
     (case callInRoom rm s of
        None \<Rightarrow> Inl InvalidStateError
      | Some c \<Rightarrow>
          (if cs_status c = CallActive then Inr (setCallStatus rm CallTransferring s)
           else Inl InvalidStateError))"

text \<open>
  Modelled from the spec: \<open>markCompleted(roomName)\<close> (section 4.1), the terminal
  transition, idempotent if already \<open>completed\<close>.
\<close>

definition markCompleted :: "string \<Rightarrow> registries \<Rightarrow> registries" where
  "markCompleted rm s = setCallStatus rm CallCompleted s"

text \<open>
  Modelled from the spec: what \<open>initiateTransfer\<close> returns, the new session and the
  briefing-room credentials of Agent A and Agent B (section 6).
\<close>

record transfer_started =
  started_transfer :: transfer_session
  agentA_credential :: credential
  agentB_credential :: credential

text \<open>
  Modelled from the spec: \<open>initiateTransfer\<close> (section 4.2), steps 1 to 6 in order.
  The Summary Generator is the parameter \<open>summarize\<close>, which already includes its
  fallback. The transfer id and the transfer room name are the first id draw no transfer
  has and the first of the hint and the room draws that no session holds; the spec
  names no failure for this allocation, and \<open>ConflictError\<close> is used as in
  \<open>createCall\<close>.
\<close>

definition initiateTransfer ::
  "string \<Rightarrow> string \<Rightarrow> string \<Rightarrow> string \<Rightarrow> string \<Rightarrow> string
     \<Rightarrow> (string \<Rightarrow> string \<times> string) \<Rightarrow> string list \<Rightarrow> string list \<Rightarrow> registries
     \<Rightarrow> registry_error + (transfer_started \<times> registries)" where
  "initiateTransfer originalRoom newRoomNameHint agentA agentB transcriptText callerName
       summarize idDraws roomDraws s =
     (case callInRoom originalRoom s of
        None \<Rightarrow> Inl NotFoundError
      | Some c \<Rightarrow>
          if cs_status c \<noteq> CallActive then Inl InvalidStateError
          else
            (case (find (\<lambda>i. i \<notin> set (map ts_transfer_id (transfers s))) idDraws,
                   find (\<lambda>r. r \<notin> set (room_names s)) (newRoomNameHint # roomDraws)) of
               (Some tid, Some troom) \<Rightarrow>
                 (let (credA, s1) = mint agentA troom s;
                      (credB, s2) = mint agentB troom s1;
                      t = \<lparr>ts_transfer_id = tid, ts_original_room = originalRoom,
                           ts_caller_name = callerName, ts_agent_b = agentB,
                           ts_transfer_room = troom, ts_summary = fst (summarize transcriptText),
                           ts_script = snd (summarize transcriptText), ts_status = TransferBriefing,
                           ts_created_at = clock s2, ts_final_room = None,
                           ts_caller_credential = None\<rparr>;
                      s3 = s2\<lparr>transfers := t # transfers s2, clock := Suc (clock s2)\<rparr>
                  in case markTransferring originalRoom s3 of
                       Inl e \<Rightarrow> Inl ConflictError
                     | Inr s4 \<Rightarrow>
                         Inr (\<lparr>started_transfer = t, agentA_credential = credA,
                                agentB_credential = credB\<rparr>, s4))
             | _ \<Rightarrow> Inl ConflictError))"

text \<open>Modelled from the spec: the Transfer Registry is keyed by transfer id (section 2).\<close>

definition transferById :: "string \<Rightarrow> registries \<Rightarrow> transfer_session option" where
  "transferById tid s = find (\<lambda>t. ts_transfer_id t = tid) (transfers s)"

text \<open>
  Modelled from the spec: completion stamps the final room and the caller credential
  on the session and sets its status to \<open>completed\<close> (section 3).
\<close>

definition stampCompleted :: "string \<Rightarrow> string \<Rightarrow> credential \<Rightarrow> transfer_session \<Rightarrow> transfer_session" where
  "stampCompleted transferId finalRoom cred u =
     (if ts_transfer_id u = transferId
      then u\<lparr>ts_status := TransferCompleted, ts_final_room := Some finalRoom,
             ts_caller_credential := Some cred\<rparr>
      else u)"

text \<open>
  Modelled from the spec: \<open>completeTransfer\<close> (section 4.2). An unknown id is
  \<open>NotFoundError\<close>; a call on a transfer whose original room does not match is
  \<open>InvalidStateError\<close>; a session already \<open>completed\<close> returns its stored final room
  and caller credential unchanged (a completed session that held none would be
  \<open>InvalidStateError\<close>; no run of the operations produces one); otherwise the caller's
  credential is minted into the transfer room, which becomes the final room, both are
  stored, the status becomes \<open>completed\<close> and the call is marked completed.
\<close>

definition completeTransfer ::
  "string \<Rightarrow> string \<Rightarrow> string \<Rightarrow> string \<Rightarrow> registries
     \<Rightarrow> registry_error + ((string \<times> credential) \<times> registries)" where
  "completeTransfer transferId originalRoom callerName agentB s =
     (case transferById transferId s of
        None \<Rightarrow> Inl NotFoundError
      | Some t \<Rightarrow>
          if ts_original_room t \<noteq> originalRoom then Inl InvalidStateError
          else
            (case ts_status t of
               TransferCompleted \<Rightarrow>
                 (case (ts_final_room t, ts_caller_credential t) of
                    (Some finalRoom, Some cred) \<Rightarrow> Inr ((finalRoom, cred), s)
                  | _ \<Rightarrow> Inl InvalidStateError)
             | TransferBriefing \<Rightarrow>
                 (let (cred, s1) = mint callerName (ts_transfer_room t) s;
                      s2 = s1\<lparr>transfers :=
                             map (stampCompleted transferId (ts_transfer_room t) cred)
                               (transfers s1)\<rparr>
                  in Inr ((ts_transfer_room t, cred), markCompleted originalRoom s2))))"

text \<open>
  Modelled from the spec: what idempotent completion is about (section 3). The transfer
  with this id is completed, was started from this room and holds this final room and
  caller credential.
\<close>

definition completionStored ::
  "string \<Rightarrow> string \<Rightarrow> string \<times> credential \<Rightarrow> registries \<Rightarrow> bool" where
  "completionStored transferId originalRoom pair s =
     (case transferById transferId s of
        None \<Rightarrow> False
      | Some t \<Rightarrow>
          ts_status t = TransferCompleted \<and> ts_original_room t = originalRoom
          \<and> ts_final_room t = Some (fst pair) \<and> ts_caller_credential t = Some (snd pair))"

text \<open>
  Modelled from the spec: the mutating operations of the Orchestration API (section 6);
  one that fails commits no registry mutation (section 7).
\<close>

datatype operation =
    CreateCall string string "(string \<times> string) list"
  | InitiateTransfer string string string string string string "string \<Rightarrow> string \<times> string"
      "string list" "string list"
  | CompleteTransfer string string string string

fun apply_operation :: "operation \<Rightarrow> registries \<Rightarrow> registries" where
  "apply_operation (CreateCall callerName callerInfo draws) s =
     (case createCall callerName callerInfo draws s of Inl e \<Rightarrow> s | Inr (c, s') \<Rightarrow> s')"
| "apply_operation (InitiateTransfer originalRoom hint agentA agentB transcriptText callerName
       summarize idDraws roomDraws) s =
     (case initiateTransfer originalRoom hint agentA agentB transcriptText callerName
             summarize idDraws roomDraws s of
        Inl e \<Rightarrow> s | Inr (r, s') \<Rightarrow> s')"
| "apply_operation (CompleteTransfer transferId originalRoom callerName agentB) s =
     (case completeTransfer transferId originalRoom callerName agentB s of
        Inl e \<Rightarrow> s | Inr (r, s') \<Rightarrow> s')"

fun apply_operations :: "operation list \<Rightarrow> registries \<Rightarrow> registries" where
  "apply_operations [] s = s"
| "apply_operations (op # ops) s = apply_operations ops (apply_operation op s)"

text \<open>
  Modelled from the spec: the invariants of section 3 in the form the proofs use.
  Room names are pairwise distinct, transfer ids are pairwise distinct, a completed
  transfer holds its final room and caller credential, the call a transfer was started
  from has left \<open>active\<close>, and no two transfers were started from the same room.
\<close>

definition stored_when_completed :: "transfer_session \<Rightarrow> bool" where
  "stored_when_completed t =
     (ts_status t = TransferBriefing \<or> (ts_final_room t \<noteq> None \<and> ts_caller_credential t \<noteq> None))"

definition origin_left_active :: "registries \<Rightarrow> transfer_session \<Rightarrow> bool" where
  "origin_left_active s t =
     (case callInRoom (ts_original_room t) s of
        None \<Rightarrow> False
      | Some c \<Rightarrow> cs_status c \<noteq> CallActive)"

definition registry_inv :: "registries \<Rightarrow> bool" where
  "registry_inv s =
     (distinct (room_names s)
      \<and> distinct (map ts_transfer_id (transfers s))
      \<and> list_all stored_when_completed (transfers s)
      \<and> list_all (origin_left_active s) (transfers s)
      \<and> distinct (map ts_original_room (transfers s)))"

text \<open>
  Modelled from the spec: the end-to-end scenario of section 8, as operations. The
  summary generator of the scenario is a stand-in; no property below depends on it.
\<close>

definition demo_summarize :: "string \<Rightarrow> string \<times> string" where
  "demo_summarize transcriptText = (''Summary: '' @ transcriptText, ''Script: '' @ transcriptText)"

definition jane_calls :: "operation list" where
  "jane_calls =
     [CreateCall ''Jane Doe'' ''billing'' [(''C1'', ''R1'')],
      InitiateTransfer ''R1'' ''transfer_1'' ''agent_a'' ''bob'' ''billing issue'' ''Jane Doe''
        demo_summarize [''T1''] []]"

definition jane_briefing :: registries where
  "jane_briefing = apply_operations jane_calls empty_registries"

definition jane_completed :: registries where
  "jane_completed = apply_operations (jane_calls
     @ [CompleteTransfer ''T1'' ''R1'' ''Jane Doe'' ''bob'']) empty_registries"

definition jane_credential :: credential where
  "jane_credential = \<lparr>cred_identity = ''Jane Doe'', cred_room = ''transfer_1'', cred_minted_at = 4\<rparr>"

text \<open>
  Modelled from the spec: what happens after Jane Doe's transfer has completed in that
  scenario. A second caller calls, is transferred and that transfer completes.
\<close>

definition roe_calls :: "operation list" where
  "roe_calls =
     [CreateCall ''Bob Roe'' ''refund'' [(''C2'', ''R2'')],
      InitiateTransfer ''R2'' ''transfer_2'' ''agent_a'' ''carol'' ''refund request'' ''Bob Roe''
        demo_summarize [''T2''] [],
      CompleteTransfer ''T2'' ''R2'' ''Bob Roe'' ''carol'']"

section \<open>Properties\<close>

subsection \<open>The activity log is bounded\<close>

lemma slice_last_suffix: "suffix (slice_last n xs) xs"
  unfolding slice_last_def by (rule suffix_drop)

lemma slice_last_length: "length (slice_last n xs) = min n (length xs)"
  unfolding slice_last_def by simp

lemma addLog_length: "length (logs (addLog timestamp message s)) \<le> 10"
  unfolding addLog_def by (simp add: slice_last_length)

lemma addLogs_length_le:
  "length (logs s) \<le> 10 \<Longrightarrow> length (logs (addLogs entries s)) \<le> 10"
proof (induction entries arbitrary: s)
  case Nil
  then show ?case by simp
next
  case (Cons e rest)
  obtain timestamp message where e: "e = (timestamp, message)" by (cases e)
  have "length (logs (addLog timestamp message s)) \<le> 10" by (rule addLog_length)
  then show ?case using Cons.IH e by simp
qed

text \<open>
  Claim C8. After \<open>addLog\<close> the log is the last \<open>min 9 n\<close> entries of the previous log
  (\<open>n\<close> its length) followed by the new entry, so it has at most 10 entries; and after
  any further run of \<open>addLog\<close> calls it still has at most 10.
\<close>

theorem addLog_bounded:
  "suffix (butlast (logs (addLog timestamp message s))) (logs s)
   \<and> length (butlast (logs (addLog timestamp message s))) = min 9 (length (logs s))
   \<and> last (logs (addLog timestamp message s)) = log_entry timestamp message
   \<and> length (logs (addLog timestamp message s)) \<le> 10
   \<and> length (logs (addLogs entries (addLog timestamp message s))) \<le> 10"
proof -
  have shape: "logs (addLog timestamp message s)
      = slice_last 9 (logs s) @ [log_entry timestamp message]"
    unfolding addLog_def by simp
  have "suffix (butlast (logs (addLog timestamp message s))) (logs s)"
    using shape slice_last_suffix by simp
  moreover have "length (butlast (logs (addLog timestamp message s))) = min 9 (length (logs s))"
    using shape by (simp add: slice_last_length)
  moreover have "last (logs (addLog timestamp message s)) = log_entry timestamp message"
    using shape by simp
  moreover have "length (logs (addLog timestamp message s)) \<le> 10"
    by (rule addLog_length)
  moreover have "length (logs (addLogs entries (addLog timestamp message s))) \<le> 10"
    by (rule addLogs_length_le) (rule addLog_length)
  ultimately show ?thesis by blast
qed

subsection \<open>The page: disconnecting and polling\<close>

text \<open>
  Claim C10. Whenever \<open>disconnectCall\<close> completes (there is no room to leave, or
  \<open>room.disconnect()\<close> resolves), it leaves \<open>room\<close> null, \<open>isConnected\<close> false, the
  participants list empty, \<open>currentCallSession\<close> and \<open>currentTransfer\<close> null,
  \<open>transferStep\<close> idle, \<open>isTransferring\<close> and \<open>showTransferModal\<close> false, and
  \<open>transcript\<close>, \<open>callSummary\<close> and \<open>agentScript\<close> empty. The ref \<open>roomRef\<close> is cleared
  together with \<open>room\<close>; with no room to leave it keeps its value.
\<close>

theorem disconnectCall_resets:
  assumes "room s = None \<or> disconnect = Resolved"
  shows "\<exists>s'. disconnectCall timestamp disconnect emits s = Inr s'
     \<and> room s' = None
     \<and> roomRef s' = (if room s = None then roomRef s else None)
     \<and> \<not> isConnected s' \<and> participants s' = []
     \<and> currentCallSession s' = None \<and> currentTransfer s' = None
     \<and> transferStep s' = Idle \<and> \<not> isTransferring s' \<and> \<not> showTransferModal s'
     \<and> transcript s' = [] \<and> callSummary s' = [] \<and> agentScript s' = []"
proof (cases "room s")
  case None
  then show ?thesis
    unfolding disconnectCall_def Let_def addLog_def by simp
next
  case (Some r)
  with assms have "disconnect = Resolved" by simp
  with Some show ?thesis
    unfolding disconnectCall_def Let_def addLog_def onDisconnected_def by simp
qed

text \<open>
  Agent A disconnects in the middle of a briefing.
\<close>

theorem disconnectCall_resets_witness:
  "(room briefing_page = None \<or> Resolved = Resolved)
   \<and> (\<exists>s'. disconnectCall ''10:30:00'' Resolved True briefing_page = Inr s'
         \<and> room s' = None \<and> roomRef s' = None \<and> \<not> isConnected s' \<and> participants s' = []
         \<and> currentCallSession s' = None \<and> currentTransfer s' = None
         \<and> transferStep s' = Idle \<and> \<not> isTransferring s' \<and> \<not> showTransferModal s'
         \<and> transcript s' = [] \<and> callSummary s' = [] \<and> agentScript s' = [])"
proof -
  have h: "room briefing_page = None \<or> Resolved = Resolved" by simp
  have r: "room briefing_page \<noteq> None" unfolding briefing_page_def by simp
  from disconnectCall_resets[OF h, of "''10:30:00''" True] r show ?thesis by auto
qed

lemma handle_latestCallInterval [simp]:
  "latestCallInterval (handle timestamp e c) = latestCallInterval c"
  unfolding handle_def by (cases e) (auto split: option.splits sum.splits prod.splits)

lemma callerStatusEffect_latest [simp]:
  "latestCallInterval (callerStatusEffect c) = latestCallInterval c"
  "page (callerStatusEffect c) = page c"
  "requests (callerStatusEffect c) = requests c"
  unfolding callerStatusEffect_def Let_def by simp_all

lemma latestCallEffect_fields [simp]:
  "page (latestCallEffect c) = page c"
  "latestCallInterval (latestCallEffect c) = (userRole (page c) = Agent_a \<and> \<not> isConnected (page c))"
  "callerStatusInterval (latestCallEffect c) = callerStatusInterval c"
  unfolding latestCallEffect_def Let_def by simp_all

lemma commit_page [simp]: "page (commit prev c) = page c"
  unfolding commit_def Let_def by simp

lemma commit_latest_inv:
  assumes "latestCallInterval c = (userRole prev = Agent_a \<and> \<not> isConnected prev)"
  shows "latestCallInterval (commit prev c) = (userRole (page c) = Agent_a \<and> \<not> isConnected (page c))"
  using assms unfolding commit_def Let_def by auto

lemma step_latest_inv:
  assumes "latestCallInterval c = (userRole (page c) = Agent_a \<and> \<not> isConnected (page c))"
  shows "latestCallInterval (step timestamp e c)
     = (userRole (page (step timestamp e c)) = Agent_a \<and> \<not> isConnected (page (step timestamp e c)))"
  unfolding step_def using commit_latest_inv[of "handle timestamp e c" "page c"] assms by simp

lemma mount_latest_inv:
  "latestCallInterval (mount s) = (userRole (page (mount s)) = Agent_a \<and> \<not> isConnected (page (mount s)))"
  unfolding mount_def by simp

lemma run_latest_inv:
  assumes "latestCallInterval c = (userRole (page c) = Agent_a \<and> \<not> isConnected (page c))"
  shows "latestCallInterval (run evs c)
     = (userRole (page (run evs c)) = Agent_a \<and> \<not> isConnected (page (run evs c)))"
  using assms
proof (induction evs arbitrary: c)
  case Nil
  then show ?case by simp
next
  case (Cons ev evs)
  obtain timestamp e where ev: "ev = (timestamp, e)" by (cases ev)
  show ?case unfolding ev run.simps
    by (rule Cons.IH) (rule step_latest_inv[OF Cons.prems])
qed

lemma handle_latestCallPolls:
  "latestCallPolls (handle timestamp e c)
     = latestCallPolls c + (if e = LatestCallTick \<and> latestCallInterval c then 1 else 0)"
  unfolding handle_def latestCallPolls_def
  by (cases e) (auto split: option.splits sum.splits prod.splits
        simp: checkCallerTransferStatus_def Let_def)

lemma commit_latestCallPolls:
  "latestCallPolls (commit prev c)
     = latestCallPolls c
       + (if (userRole (page c), isConnected (page c)) \<noteq> (userRole prev, isConnected prev)
             \<and> userRole (page c) = Agent_a \<and> \<not> isConnected (page c) then 1 else 0)"
  unfolding commit_def Let_def latestCallPolls_def latestCallEffect_def by auto

lemma handle_tick_page [simp]: "page (handle timestamp LatestCallTick c) = page c"
  unfolding handle_def by simp

lemma step_tick_polls:
  assumes "latestCallInterval c = (userRole (page c) = Agent_a \<and> \<not> isConnected (page c))"
  shows "latestCallPolls (step timestamp LatestCallTick c)
     = latestCallPolls c + (if userRole (page c) = Agent_a \<and> \<not> isConnected (page c) then 1 else 0)"
  unfolding step_def using assms
  by (simp add: commit_latestCallPolls handle_latestCallPolls)

lemma step_no_poll:
  assumes inv: "latestCallInterval c = (userRole (page c) = Agent_a \<and> \<not> isConnected (page c))"
    and fin: "userRole (page (step timestamp e c)) \<noteq> Agent_a \<or> isConnected (page (step timestamp e c))"
  shows "latestCallPolls (step timestamp e c) = latestCallPolls c"
proof -
  have page_eq: "page (step timestamp e c) = page (handle timestamp e c)"
    unfolding step_def by simp
  have no_effect: "latestCallPolls (step timestamp e c) = latestCallPolls (handle timestamp e c)"
    unfolding step_def using fin page_eq by (auto simp: commit_latestCallPolls)
  show ?thesis
  proof (cases "e = LatestCallTick \<and> latestCallInterval c")
    case True
    then have "page (handle timestamp e c) = page c" by simp
    with True inv fin page_eq show ?thesis by auto
  next
    case False
    then show ?thesis using no_effect by (simp add: handle_latestCallPolls)
  qed
qed

text \<open>
  What the latest-call effect does, in terms of the flag \<open>isConnected\<close>: in every state
  the page reaches, the interval is installed exactly while the role is Agent A and the
  flag is false; each tick of that interval sends one latest-call request exactly then;
  and no event that ends with the flag set (or with a role other than Agent A) sends a
  latest-call request. The flag is not the same as holding a room, as the briefing
  run below shows.
\<close>

theorem latestCall_polling:
  assumes "c = run evs (mount s0)"
  shows "latestCallInterval c = (userRole (page c) = Agent_a \<and> \<not> isConnected (page c))
     \<and> latestCallPolls (step timestamp LatestCallTick c)
         = latestCallPolls c + (if userRole (page c) = Agent_a \<and> \<not> isConnected (page c) then 1 else 0)
     \<and> (userRole (page (step timestamp e c)) \<noteq> Agent_a \<or> isConnected (page (step timestamp e c))
          \<longrightarrow> latestCallPolls (step timestamp e c) = latestCallPolls c)"
proof -
  have inv: "latestCallInterval c = (userRole (page c) = Agent_a \<and> \<not> isConnected (page c))"
    unfolding assms by (rule run_latest_inv) (rule mount_latest_inv)
  show ?thesis
    using inv step_tick_polls[OF inv] step_no_poll[OF inv] by blast
qed

lemma agentA_trace_value:
  "latestCallPolls (run agentA_trace (mount initial_page)) = 2
   \<and> isConnected (page (run agentA_trace (mount initial_page)))"
  unfolding agentA_trace_def
  by (simp add: step_def commit_def handle_def mount_def initial_page_def latestCallEffect_def
      callerStatusEffect_def latestCallPolls_def onConnected_def addLog_def Let_def)

text \<open>
  Agent A polls at once and at the first tick; after the room has connected the
  interval is gone and a tick sends nothing.
\<close>

theorem latestCall_polling_witness:
  "latestCallPolls (run agentA_trace (mount initial_page)) = 2
   \<and> isConnected (page (run agentA_trace (mount initial_page)))
   \<and> \<not> latestCallInterval (run agentA_trace (mount initial_page))
   \<and> latestCallPolls (step ''10:00:06'' LatestCallTick (run agentA_trace (mount initial_page))) = 2"
  using latestCall_polling[OF refl, of agentA_trace initial_page "''10:00:06''" LatestCallTick]
    agentA_trace_value
  by simp

text \<open>
  Claim C7, in the page's own transfer flow. Agent A has joined the call: the flag
  \<open>isConnected\<close> is set and two latest-call requests have been sent. Then
  \<open>connectToBriefingRoom\<close> connects the briefing room and leaves the call's room,
  whose \<open>Disconnected\<close> handler clears the flag. Agent A now holds the briefing room
  with the flag false: the effect has installed the interval again and sent a third
  latest-call request, and the next tick sends a fourth.
\<close>

theorem latestCall_briefing_counterexample:
  "isConnected (page (run agentA_joined_trace (mount initial_page)))
   \<and> latestCallPolls (run agentA_joined_trace (mount initial_page)) = 2
   \<and> room (page (run agentA_briefing_trace (mount initial_page)))
       = Some \<lparr>conn_url = ''ws://lk'', conn_token = ''briefing-token-a''\<rparr>
   \<and> \<not> isConnected (page (run agentA_briefing_trace (mount initial_page)))
   \<and> latestCallInterval (run agentA_briefing_trace (mount initial_page))
   \<and> latestCallPolls (run agentA_briefing_trace (mount initial_page)) = 3
   \<and> latestCallPolls (step ''10:05:03'' LatestCallTick
         (run agentA_briefing_trace (mount initial_page))) = 4"
  unfolding agentA_briefing_trace_def agentA_joined_trace_def agentA_trace_def
    briefing_session_def media_resolves_def
  by (simp add: step_def commit_def handle_def mount_def initial_page_def latestCallEffect_def
      callerStatusEffect_def latestCallPolls_def onConnected_def onDisconnected_def addLog_def
      connectToBriefingRoom_def capture_def Let_def)

lemma addLog_fields [simp]:
  "userRole (addLog timestamp message s) = userRole s"
  "userName (addLog timestamp message s) = userName s"
  "isConnected (addLog timestamp message s) = isConnected s"
  "room (addLog timestamp message s) = room s"
  "roomRef (addLog timestamp message s) = roomRef s"
  unfolding addLog_def by simp_all

lemma onConnected_fields [simp]:
  "userRole (onConnected timestamp name remote s) = userRole s"
  "userName (onConnected timestamp name remote s) = userName s"
  "isConnected (onConnected timestamp name remote s) = True"
  "room (onConnected timestamp name remote s) = room s"
  "roomRef (onConnected timestamp name remote s) = roomRef s"
  unfolding onConnected_def by simp_all

lemma onDisconnected_fields [simp]:
  "userRole (onDisconnected timestamp s) = userRole s"
  "userName (onDisconnected timestamp s) = userName s"
  "isConnected (onDisconnected timestamp s) = False"
  "room (onDisconnected timestamp s) = room s"
  "roomRef (onDisconnected timestamp s) = roomRef s"
  unfolding onDisconnected_def by simp_all

lemma connectFailed_fields [simp]:
  "userRole (connectFailed timestamp s) = userRole s"
  "userName (connectFailed timestamp s) = userName s"
  "isConnected (connectFailed timestamp s) = isConnected s"
  "room (connectFailed timestamp s) = room s"
  "roomRef (connectFailed timestamp s) = roomRef s"
  unfolding connectFailed_def by simp_all

lemma connectToFinalRoom_role_name [simp]:
  "userRole (connectToFinalRoom timestamp cl m token roomName s) = userRole s"
  "userName (connectToFinalRoom timestamp cl m token roomName s) = userName s"
  unfolding connectToFinalRoom_def
  by (simp_all add: Let_def split: option.splits settled.splits)

lemma connectToFinalRoom_no_transfer:
  "cl_currentTransfer cl = None \<Longrightarrow>
     room (connectToFinalRoom timestamp cl m token roomName s) = room s
     \<and> roomRef (connectToFinalRoom timestamp cl m token roomName s) = roomRef s
     \<and> isConnected (connectToFinalRoom timestamp cl m token roomName s) = isConnected s"
  unfolding connectToFinalRoom_def by (simp add: Let_def)

lemma connectToFinalRoom_moves:
  assumes "cl_currentTransfer cl = Some t" "connect_settles m = Resolved"
    "publish_settles m = Resolved" "disconnect_settles m = Resolved"
  shows "room (connectToFinalRoom timestamp cl m token roomName s)
           = Some \<lparr>conn_url = transfer_livekit_url t, conn_token = token\<rparr>
     \<and> isConnected (connectToFinalRoom timestamp cl m token roomName s)
           = (cl_room cl = None \<or> \<not> emits_disconnected m)"
  using assms unfolding connectToFinalRoom_def
  by (simp add: Let_def split: option.splits)

lemma checkCallerTransferStatus_role_name [simp]:
  "userRole (snd (checkCallerTransferStatus timestamp cl resp m s)) = userRole s"
  "userName (snd (checkCallerTransferStatus timestamp cl resp m s)) = userName s"
  unfolding checkCallerTransferStatus_def Let_def
  by (auto split: response.splits)

lemma checkCallerTransferStatus_request:
  "fst (checkCallerTransferStatus timestamp cl resp m s)
     = (if blank (cl_userName cl) then None else Some (GetTransferStatus (cl_userName cl)))"
  unfolding checkCallerTransferStatus_def Let_def by simp

lemma handle_callerStatusInterval [simp]:
  "callerStatusInterval (handle timestamp e c) = callerStatusInterval c"
  unfolding handle_def by (cases e) (auto split: option.splits sum.splits prod.splits)

lemma commit_caller_inv:
  assumes "case callerStatusInterval c of
             None \<Rightarrow> \<not> callerPolling prev
           | Some cl \<Rightarrow> callerPolling prev \<and> cl_userName cl = userName prev"
  shows "caller_inv (commit prev c)"
  using assms unfolding caller_inv_def commit_def Let_def callerStatusEffect_def
    latestCallEffect_def callerPolling_def capture_def
  by (auto split: option.splits)

lemma step_caller_inv: "caller_inv c \<Longrightarrow> caller_inv (step timestamp e c)"
  unfolding step_def by (rule commit_caller_inv) (simp add: caller_inv_def)

lemma mount_caller_inv: "caller_inv (mount s)"
  unfolding mount_def caller_inv_def callerStatusEffect_def latestCallEffect_def Let_def
    callerPolling_def capture_def
  by simp

lemma run_caller_inv: "caller_inv c \<Longrightarrow> caller_inv (run evs c)"
proof (induction evs arbitrary: c)
  case Nil
  then show ?case by simp
next
  case (Cons ev evs)
  obtain timestamp e where ev: "ev = (timestamp, e)" by (cases ev)
  show ?case unfolding ev run.simps
    by (rule Cons.IH) (rule step_caller_inv[OF Cons.prems])
qed

lemma caller_inv_polling: "caller_inv c \<Longrightarrow> (callerStatusInterval c \<noteq> None) = callerPolling (page c)"
  unfolding caller_inv_def by (auto split: option.splits)

lemma tick_page:
  "page (step timestamp (CallerStatusTick resp m) c)
     = (case callerStatusInterval c of
          None \<Rightarrow> page c
        | Some cl \<Rightarrow> snd (checkCallerTransferStatus timestamp cl resp m (page c)))"
  unfolding step_def handle_def by (auto split: option.splits prod.splits)

lemma tick_role_name [simp]:
  "userRole (page (step timestamp (CallerStatusTick resp m) c)) = userRole (page c)"
  "userName (page (step timestamp (CallerStatusTick resp m) c)) = userName (page c)"
  unfolding tick_page by (auto split: option.splits)

lemma tick_requests:
  assumes "caller_inv c"
  shows "requests (step timestamp (CallerStatusTick resp m) c)
     = requests c @ (if callerPolling (page c) then [GetTransferStatus (userName (page c))] else [])"
proof (cases "callerStatusInterval c")
  case None
  with assms have "\<not> callerPolling (page c)" unfolding caller_inv_def by simp
  with None show ?thesis
    unfolding step_def handle_def commit_def Let_def by simp
next
  case (Some cl)
  with assms have pol: "callerPolling (page c)" and nm: "cl_userName cl = userName (page c)"
    unfolding caller_inv_def by simp_all
  from pol have role: "userRole (page c) = Caller" and nb: "\<not> blank (userName (page c))"
    unfolding callerPolling_def by simp_all
  obtain r s where chk: "checkCallerTransferStatus timestamp cl resp m (page c) = (r, s)"
    by (cases "checkCallerTransferStatus timestamp cl resp m (page c)")
  have r: "r = Some (GetTransferStatus (userName (page c)))"
    using checkCallerTransferStatus_request[of timestamp cl resp m "page c"] chk nm nb by simp
  have srole: "userRole s = Caller"
    using checkCallerTransferStatus_role_name(1)[of timestamp cl resp m "page c"] chk role by simp
  have h: "handle timestamp (CallerStatusTick resp m) c
      = c\<lparr>page := s, requests := requests c @ [GetTransferStatus (userName (page c))]\<rparr>"
    unfolding handle_def using Some chk r by simp
  show ?thesis
    unfolding step_def h commit_def Let_def latestCallEffect_def using srole pol
    by (simp add: callerStatusEffect_def Let_def)
qed

lemma checkCallerTransferStatus_complete:
  assumes "\<not> blank (cl_userName cl)" "transfer_complete d"
  shows "snd (checkCallerTransferStatus timestamp cl (HttpOk d) m s)
     = connectToFinalRoom timestamp cl m (data_caller_token d) (final_room d)
         (addLog timestamp (''Transfer completed! Joining Agent B in room: '' @ final_room d)
            (addLog timestamp ''Transfer status response''
               (addLog timestamp (''Checking transfer status for caller: '' @ cl_userName cl) s)))"
  using assms unfolding checkCallerTransferStatus_def by (simp add: Let_def)

text \<open>
  What the caller's poll does in every state the page reaches: the interval is
  installed exactly for a connected caller with a name; a tick then sends one
  transfer-status request for that name; after the tick the interval is still installed
  exactly when the page is still connected; and when the closure holds a transfer
  session and the media calls resolve, a completed response puts the page in the room
  of the returned token.
\<close>

theorem callerStatus_polling:
  assumes "c = run evs (mount s0)"
  shows "(callerStatusInterval c \<noteq> None) = callerPolling (page c)
     \<and> requests (step timestamp (CallerStatusTick resp m) c)
         = requests c @ (if callerPolling (page c) then [GetTransferStatus (userName (page c))] else [])
     \<and> (callerStatusInterval (step timestamp (CallerStatusTick resp m) c) \<noteq> None)
         = (callerPolling (page c) \<and> isConnected (page (step timestamp (CallerStatusTick resp m) c)))
     \<and> (callerStatusInterval c = Some cl \<and> resp = HttpOk d \<and> transfer_complete d
          \<and> cl_currentTransfer cl = Some t \<and> connect_settles m = Resolved
          \<and> publish_settles m = Resolved \<and> disconnect_settles m = Resolved
        \<longrightarrow> room (page (step timestamp (CallerStatusTick resp m) c))
              = Some \<lparr>conn_url = transfer_livekit_url t, conn_token = data_caller_token d\<rparr>)"
proof -
  let ?c' = "step timestamp (CallerStatusTick resp m) c"
  have inv: "caller_inv c"
    unfolding assms by (rule run_caller_inv) (rule mount_caller_inv)
  have inv': "caller_inv ?c'" by (rule step_caller_inv[OF inv])
  have a: "(callerStatusInterval c \<noteq> None) = callerPolling (page c)"
    by (rule caller_inv_polling[OF inv])
  have b: "requests ?c' = requests c
      @ (if callerPolling (page c) then [GetTransferStatus (userName (page c))] else [])"
    by (rule tick_requests[OF inv])
  have "(callerStatusInterval ?c' \<noteq> None) = callerPolling (page ?c')"
    by (rule caller_inv_polling[OF inv'])
  moreover have "callerPolling (page ?c') = (callerPolling (page c) \<and> isConnected (page ?c'))"
  proof (cases "callerStatusInterval c")
    case None
    then have "page ?c' = page c" unfolding tick_page by simp
    then show ?thesis unfolding callerPolling_def by auto
  next
    case (Some cl0)
    with a have "callerPolling (page c)" by simp
    then show ?thesis unfolding callerPolling_def by simp
  qed
  ultimately have c3: "(callerStatusInterval ?c' \<noteq> None)
      = (callerPolling (page c) \<and> isConnected (page ?c'))" by simp
  have d4: "room (page ?c') = Some \<lparr>conn_url = transfer_livekit_url t, conn_token = data_caller_token d\<rparr>"
    if h: "callerStatusInterval c = Some cl \<and> resp = HttpOk d \<and> transfer_complete d
          \<and> cl_currentTransfer cl = Some t \<and> connect_settles m = Resolved
          \<and> publish_settles m = Resolved \<and> disconnect_settles m = Resolved"
  proof -
    from h inv have nb: "\<not> blank (cl_userName cl)"
      unfolding caller_inv_def callerPolling_def by simp
    from h have "page ?c' = snd (checkCallerTransferStatus timestamp cl (HttpOk d) m (page c))"
      unfolding tick_page by simp
    then show ?thesis
      using h connectToFinalRoom_moves[of cl t m]
      by (simp add: checkCallerTransferStatus_complete[OF nb])
  qed
  show ?thesis using a b c3 d4 by blast
qed

lemmas eval_defs = step_def commit_def handle_def mount_def initial_page_def latestCallEffect_def
  callerStatusEffect_def onConnected_def onDisconnected_def addLog_def connectFailed_def
  connectToFinalRoom_def checkCallerTransferStatus_def capture_def blank_def is_space_def
  callerPolling_def Let_def

lemma caller_trace_state:
  "callerStatusInterval (run caller_trace (mount initial_page))
     = Some \<lparr>cl_userName = ''Jane'', cl_room = None, cl_currentTransfer = None,
             cl_localAudioTrack = False\<rparr>
   \<and> room (page (run caller_trace (mount initial_page)))
     = Some \<lparr>conn_url = ''ws://lk'', conn_token = ''call-token''\<rparr>
   \<and> requests (run caller_trace (mount initial_page)) = []"
  unfolding caller_trace_def by (simp add: eval_defs)

text \<open>
  Claim C6, on the caller's own page. Jane has started a call, so her page holds no
  transfer session. The first response with \<open>transfer_complete\<close> true does not move
  her: \<open>room\<close> is still the call's room. The interval stays installed, and the next tick
  sends a second transfer-status request.
\<close>

theorem callerStatus_poll_counterexample:
  "room (page (step ''10:00:08'' (CallerStatusTick completed_response media_ok)
                (run caller_trace (mount initial_page))))
     = Some \<lparr>conn_url = ''ws://lk'', conn_token = ''call-token''\<rparr>
   \<and> requests (step ''10:00:11'' (CallerStatusTick completed_response media_ok)
        (step ''10:00:08'' (CallerStatusTick completed_response media_ok)
           (run caller_trace (mount initial_page))))
     = [GetTransferStatus ''Jane'', GetTransferStatus ''Jane'']"
  unfolding caller_trace_def completed_response_def media_ok_def by (simp add: eval_defs)

subsection \<open>The room page: participants\<close>







subsection \<open>The registries\<close>

lemma find_map_same:
  assumes "\<And>x. P (f x) = P x"
  shows "find P (map f xs) = map_option f (find P xs)"
  by (induction xs) (simp_all add: assms)

lemma find_in_set: "find P xs = Some x \<Longrightarrow> x \<in> set xs \<and> P x"
  by (induction xs) (auto split: if_splits)

lemma setCallStatus_fields [simp]:
  "transfers (setCallStatus rm st s) = transfers s"
  "clock (setCallStatus rm st s) = clock s"
  "map cs_room_name (calls (setCallStatus rm st s)) = map cs_room_name (calls s)"
  unfolding setCallStatus_def by (simp_all add: comp_def)

lemma stampCompleted_id [simp]: "ts_transfer_id (stampCompleted tid fr cred u) = ts_transfer_id u"
  unfolding stampCompleted_def by simp

lemma completeTransfer_completed:
  assumes "transferById tid s = Some t" "ts_status t = TransferCompleted"
    "ts_final_room t = Some fr" "ts_caller_credential t = Some cred"
    "ts_original_room t = rm"
  shows "completeTransfer tid rm nm b s = Inr ((fr, cred), s)"
  using assms unfolding completeTransfer_def by simp

lemma completeTransfer_briefing:
  assumes "transferById tid s = Some t" "ts_status t = TransferBriefing"
    "ts_original_room t = rm"
  shows "completeTransfer tid rm nm b s
     = Inr ((ts_transfer_room t,
             \<lparr>cred_identity = nm, cred_room = ts_transfer_room t, cred_minted_at = clock s\<rparr>),
            markCompleted rm
              (s\<lparr>clock := Suc (clock s),
                 transfers := map (stampCompleted tid (ts_transfer_room t)
                     \<lparr>cred_identity = nm, cred_room = ts_transfer_room t, cred_minted_at = clock s\<rparr>)
                   (transfers s)\<rparr>))"
  using assms unfolding completeTransfer_def mint_def by simp

lemma transferById_stamped:
  "transferById tid (markCompleted rm (s\<lparr>clock := k,
       transfers := map (stampCompleted tid fr cred) (transfers s)\<rparr>))
     = map_option (stampCompleted tid fr cred) (transferById tid s)"
  unfolding transferById_def markCompleted_def
  by (simp add: find_map_same)

lemma callInRoom_setCallStatus:
  "callInRoom rm' (setCallStatus rm st s)
     = map_option (\<lambda>c. if cs_room_name c = rm then c\<lparr>cs_status := st\<rparr> else c) (callInRoom rm' s)"
  unfolding callInRoom_def setCallStatus_def by (simp add: find_map_same)

lemma callInRoom_room: "callInRoom rm s = Some c \<Longrightarrow> c \<in> set (calls s) \<and> cs_room_name c = rm"
  unfolding callInRoom_def by (rule find_in_set)

lemma callInRoom_in_names: "callInRoom rm s = Some c \<Longrightarrow> rm \<in> set (room_names s)"
  using callInRoom_room[of rm s c] unfolding room_names_def by force

lemma origin_left_active_cong:
  assumes "callInRoom (ts_original_room t) s' = callInRoom (ts_original_room t) s"
  shows "origin_left_active s' t = origin_left_active s t"
  unfolding origin_left_active_def assms ..

lemma origin_left_active_setCallStatus:
  assumes "origin_left_active s t" "st \<noteq> CallActive"
  shows "origin_left_active (setCallStatus rm st s) t"
  using assms unfolding origin_left_active_def callInRoom_setCallStatus
  by (auto split: option.splits)

lemma createCall_success:
  assumes "createCall nm info draws s = Inr (c, s')"
  shows "cs_room_name c \<notin> set (room_names s) \<and> cs_status c = CallActive
     \<and> cs_call_id c \<notin> set (map cs_call_id (calls s))
     \<and> calls s' = c # calls s \<and> transfers s' = transfers s"
proof -
  let ?P = "\<lambda>(i, r). i \<notin> set (map cs_call_id (calls s)) \<and> r \<notin> set (room_names s)"
  from assms obtain i r where f: "find ?P draws = Some (i, r)"
    unfolding createCall_def by (auto split: option.splits)
  from find_in_set[OF f] have fresh: "i \<notin> set (map cs_call_id (calls s))" "r \<notin> set (room_names s)"
    by auto
  from assms f have "c = \<lparr>cs_call_id = i, cs_caller_name = nm, cs_caller_info = info,
        cs_room_name = r, cs_status = CallActive, cs_created_at = clock s\<rparr>"
    and "s' = s\<lparr>calls := c # calls s, clock := Suc (clock s)\<rparr>"
    unfolding createCall_def by (auto simp: Let_def)
  with fresh show ?thesis by simp
qed

lemma initiateTransfer_success:
  assumes "initiateTransfer rm hint a b tr nm sm ids rms s = Inr (res, s')"
  shows "\<exists>c. callInRoom rm s = Some c \<and> cs_status c = CallActive
     \<and> ts_transfer_room (started_transfer res) \<notin> set (room_names s)
     \<and> ts_transfer_id (started_transfer res) \<notin> set (map ts_transfer_id (transfers s))
     \<and> ts_original_room (started_transfer res) = rm
     \<and> ts_caller_name (started_transfer res) = nm
     \<and> ts_status (started_transfer res) = TransferBriefing
     \<and> ts_summary (started_transfer res) = fst (sm tr)
     \<and> ts_script (started_transfer res) = snd (sm tr)
     \<and> transfers s' = started_transfer res # transfers s
     \<and> calls s' = calls (setCallStatus rm CallTransferring s)"
proof -
  from assms obtain c where c: "callInRoom rm s = Some c" "cs_status c = CallActive"
    unfolding initiateTransfer_def by (auto split: option.splits if_splits)
  from assms c obtain tid troom where
    tid: "find (\<lambda>i. i \<notin> set (map ts_transfer_id (transfers s))) ids = Some tid"
    and troom: "find (\<lambda>r. r \<notin> set (room_names s)) (hint # rms) = Some troom"
    unfolding initiateTransfer_def by (simp split: option.splits)
  have fresh: "tid \<notin> set (map ts_transfer_id (transfers s))" "troom \<notin> set (room_names s)"
    using find_in_set[OF tid] find_in_set[OF troom] by simp_all
  have mark: "markTransferring rm s3 = Inr (setCallStatus rm CallTransferring s3)"
    if "calls s3 = calls s" for s3
    using c that unfolding markTransferring_def callInRoom_def by simp
  from assms c tid troom
  have "started_transfer res = \<lparr>ts_transfer_id = tid, ts_original_room = rm,
         ts_caller_name = nm, ts_agent_b = b, ts_transfer_room = troom,
         ts_summary = fst (sm tr), ts_script = snd (sm tr), ts_status = TransferBriefing,
         ts_created_at = Suc (Suc (clock s)), ts_final_room = None,
         ts_caller_credential = None\<rparr>
     \<and> s' = setCallStatus rm CallTransferring
           (s\<lparr>transfers := started_transfer res # transfers s,
              clock := Suc (Suc (Suc (clock s)))\<rparr>)"
    unfolding initiateTransfer_def mint_def by (auto simp: Let_def mark)
  then show ?thesis using c fresh by (auto simp: setCallStatus_def)
qed

lemma completeTransfer_success:
  assumes "completeTransfer tid rm nm b s = Inr (r, s')"
  obtains (again) t where "transferById tid s = Some t" "ts_status t = TransferCompleted"
        "ts_original_room t = rm" "ts_final_room t = Some (fst r)"
        "ts_caller_credential t = Some (snd r)" "s' = s"
    | (first) t cred where "transferById tid s = Some t" "ts_status t = TransferBriefing"
        "ts_original_room t = rm" "r = (ts_transfer_room t, cred)"
        "transfers s' = map (stampCompleted tid (ts_transfer_room t) cred) (transfers s)"
        "calls s' = calls (setCallStatus rm CallCompleted s)"
proof (cases "transferById tid s")
  case None
  with assms show ?thesis unfolding completeTransfer_def by simp
next
  case (Some t)
  from Some assms have rm: "ts_original_room t = rm"
    unfolding completeTransfer_def by (auto split: if_splits)
  show ?thesis
  proof (cases "ts_status t")
    case TransferCompleted
    with Some rm assms have "ts_final_room t = Some (fst r)"
      "ts_caller_credential t = Some (snd r)" "s' = s"
      unfolding completeTransfer_def by (auto split: option.splits)
    then show ?thesis by (intro again[OF Some TransferCompleted rm])
  next
    case TransferBriefing
    let ?cred = "\<lparr>cred_identity = nm, cred_room = ts_transfer_room t, cred_minted_at = clock s\<rparr>"
    let ?s' = "markCompleted rm (s\<lparr>clock := Suc (clock s),
          transfers := map (stampCompleted tid (ts_transfer_room t) ?cred) (transfers s)\<rparr>)"
    have "completeTransfer tid rm nm b s = Inr ((ts_transfer_room t, ?cred), ?s')"
      by (rule completeTransfer_briefing[OF Some TransferBriefing rm])
    with assms have "Inr (r, s') = (Inr ((ts_transfer_room t, ?cred), ?s')
        :: registry_error + ((string \<times> credential) \<times> registries))"
      by (simp only:)
    then have r: "r = (ts_transfer_room t, ?cred)" and s': "s' = ?s'"
      by (simp_all only: sum.inject prod.inject)
    show ?thesis
      by (rule first[OF Some TransferBriefing rm r])
        (simp_all add: s' markCompleted_def setCallStatus_def)
  qed
qed

lemma registry_inv_empty: "registry_inv empty_registries"
  unfolding registry_inv_def empty_registries_def room_names_def by simp

lemma createCall_inv:
  assumes inv: "registry_inv s" and ok: "createCall nm info draws s = Inr (c, s')"
  shows "registry_inv s'"
proof -
  from createCall_success[OF ok]
  have fresh: "cs_room_name c \<notin> set (room_names s)"
    and calls: "calls s' = c # calls s" and transfers: "transfers s' = transfers s" by simp_all
  have names: "room_names s' = cs_room_name c # room_names s"
    unfolding room_names_def calls transfers by simp
  have keep: "origin_left_active s' t" if "t \<in> set (transfers s)" for t
  proof -
    from inv that have old: "origin_left_active s t"
      unfolding registry_inv_def by (simp add: list_all_iff)
    then obtain c0 where c0: "callInRoom (ts_original_room t) s = Some c0"
      unfolding origin_left_active_def by (auto split: option.splits)
    from callInRoom_in_names[OF c0] fresh have "cs_room_name c \<noteq> ts_original_room t" by auto
    then have "callInRoom (ts_original_room t) s' = callInRoom (ts_original_room t) s"
      unfolding callInRoom_def calls by simp
    from origin_left_active_cong[OF this] old show ?thesis by simp
  qed
  show ?thesis
    using inv fresh keep unfolding registry_inv_def names transfers
    by (simp add: list_all_iff)
qed

lemma initiateTransfer_inv:
  assumes inv: "registry_inv s"
    and ok: "initiateTransfer rm hint a b tr nm sm ids rms s = Inr (res, s')"
  shows "registry_inv s'"
proof -
  let ?t = "started_transfer res"
  from initiateTransfer_success[OF ok] obtain c where
    c: "callInRoom rm s = Some c" "cs_status c = CallActive"
    and fresh: "ts_transfer_room ?t \<notin> set (room_names s)"
    and orig: "ts_original_room ?t = rm" and st: "ts_status ?t = TransferBriefing"
    and transfers: "transfers s' = ?t # transfers s"
    and calls: "calls s' = calls (setCallStatus rm CallTransferring s)" by blast
  have look: "callInRoom x s' = callInRoom x (setCallStatus rm CallTransferring s)" for x
    unfolding callInRoom_def calls ..
  have names: "set (room_names s') = insert (ts_transfer_room ?t) (set (room_names s))"
    and dist: "distinct (room_names s')"
    using inv fresh unfolding registry_inv_def room_names_def calls transfers by auto
  have new: "origin_left_active s' ?t"
    unfolding origin_left_active_def look orig callInRoom_setCallStatus
    using c callInRoom_room[OF c(1)] by simp
  have old: "origin_left_active s' t" if "t \<in> set (transfers s)" for t
  proof -
    from inv that have "origin_left_active s t"
      unfolding registry_inv_def by (simp add: list_all_iff)
    then have "origin_left_active (setCallStatus rm CallTransferring s) t"
      by (rule origin_left_active_setCallStatus) simp
    then show ?thesis unfolding origin_left_active_def look .
  qed
  from initiateTransfer_success[OF ok]
  have newid: "ts_transfer_id ?t \<notin> set (map ts_transfer_id (transfers s))" by blast
  have unused: "rm \<notin> set (map ts_original_room (transfers s))"
  proof
    assume "rm \<in> set (map ts_original_room (transfers s))"
    then obtain t where t: "t \<in> set (transfers s)" "ts_original_room t = rm" by auto
    with inv have "origin_left_active s t" unfolding registry_inv_def by (simp add: list_all_iff)
    with t c show False unfolding origin_left_active_def by simp
  qed
  show ?thesis
    using inv dist new old unused newid st orig
    unfolding registry_inv_def transfers
    by (simp add: list_all_iff stored_when_completed_def)
qed

lemma completeTransfer_inv:
  assumes inv: "registry_inv s" and ok: "completeTransfer tid rm nm b s = Inr (r, s')"
  shows "registry_inv s'"
  using ok
proof (cases rule: completeTransfer_success)
  case (again t)
  with inv show ?thesis by simp
next
  case (first t cred)
  note transfers = first(5) and calls = first(6)
  have ids: "map ts_transfer_id (transfers s') = map ts_transfer_id (transfers s)"
    unfolding transfers by (simp add: comp_def)
  have look: "callInRoom x s' = callInRoom x (setCallStatus rm CallCompleted s)" for x
    unfolding callInRoom_def calls ..
  have rooms: "map ts_transfer_room (transfers s') = map ts_transfer_room (transfers s)"
    and origs: "map ts_original_room (transfers s') = map ts_original_room (transfers s)"
    unfolding transfers by (simp_all add: stampCompleted_def comp_def)
  have names: "room_names s' = room_names s"
    unfolding room_names_def rooms calls by simp
  have stored: "stored_when_completed (stampCompleted tid fr cred u)"
    if "stored_when_completed u" for u fr
    using that unfolding stored_when_completed_def stampCompleted_def by simp
  have left: "origin_left_active s' (stampCompleted tid fr cred u)"
    if "origin_left_active s u" for u fr
  proof -
    from that have "origin_left_active (setCallStatus rm CallCompleted s) u"
      by (rule origin_left_active_setCallStatus) simp
    then show ?thesis
      unfolding origin_left_active_def look by (simp add: stampCompleted_def)
  qed
  show ?thesis
    using inv stored left unfolding registry_inv_def names origs ids
    by (simp add: list_all_iff transfers)
qed

lemma apply_operation_inv: "registry_inv s \<Longrightarrow> registry_inv (apply_operation op s)"
proof (cases op)
  case (CreateCall nm info draws)
  assume "registry_inv s"
  then show ?thesis
    using CreateCall createCall_inv[of s nm info draws]
    by (auto split: sum.splits)
next
  case (InitiateTransfer rm hint a b tr nm sm ids rms)
  assume "registry_inv s"
  then show ?thesis
    using InitiateTransfer initiateTransfer_inv[of s rm hint a b tr nm sm ids rms]
    by (auto split: sum.splits)
next
  case (CompleteTransfer tid rm nm b)
  assume "registry_inv s"
  then show ?thesis
    using CompleteTransfer completeTransfer_inv[of s tid rm nm b]
    by (auto split: sum.splits)
qed

lemma apply_operations_inv: "registry_inv s \<Longrightarrow> registry_inv (apply_operations ops s)"
  by (induction ops arbitrary: s) (simp_all add: apply_operation_inv)

lemma reachable_inv: "registry_inv (apply_operations ops empty_registries)"
  by (rule apply_operations_inv) (rule registry_inv_empty)

lemmas registry_eval = apply_operation.simps apply_operations.simps createCall_def
  initiateTransfer_def completeTransfer_def markTransferring_def markCompleted_def
  setCallStatus_def callInRoom_def transferById_def room_names_def mint_def
  stampCompleted_def empty_registries_def Let_def

lemma jane_briefing_value:
  "jane_briefing =
     \<lparr>calls = [\<lparr>cs_call_id = ''C1'', cs_caller_name = ''Jane Doe'', cs_caller_info = ''billing'',
                 cs_room_name = ''R1'', cs_status = CallTransferring, cs_created_at = 0\<rparr>],
      transfers = [\<lparr>ts_transfer_id = ''T1'', ts_original_room = ''R1'',
                     ts_caller_name = ''Jane Doe'', ts_agent_b = ''bob'',
                     ts_transfer_room = ''transfer_1'',
                     ts_summary = ''Summary: billing issue'',
                     ts_script = ''Script: billing issue'', ts_status = TransferBriefing,
                     ts_created_at = 3, ts_final_room = None, ts_caller_credential = None\<rparr>],
      clock = 4\<rparr>"
  unfolding jane_briefing_def jane_calls_def demo_summarize_def
  by (simp add: registry_eval)

lemma apply_operations_append:
  "apply_operations (ops @ ops') s = apply_operations ops' (apply_operations ops s)"
  by (induction ops arbitrary: s) simp_all

lemma jane_complete_value:
  "completeTransfer ''T1'' ''R1'' ''Jane Doe'' ''bob'' jane_briefing
     = Inr ((''transfer_1'', jane_credential), jane_completed)"
proof -
  have "jane_completed = apply_operation (CompleteTransfer ''T1'' ''R1'' ''Jane Doe'' ''bob'') jane_briefing"
    unfolding jane_completed_def jane_briefing_def by (simp add: apply_operations_append)
  then show ?thesis
    unfolding jane_briefing_value jane_credential_def
    by (simp add: registry_eval)
qed

lemma distinct_find_self:
  "distinct (map f xs) \<Longrightarrow> x \<in> set xs \<Longrightarrow> find (\<lambda>y. f y = f x) xs = Some x"
  by (induction xs) (auto simp: image_iff)

lemma transferById_in:
  "transferById tid s = Some t \<Longrightarrow> t \<in> set (transfers s) \<and> ts_transfer_id t = tid"
  unfolding transferById_def by (rule find_in_set)

lemma transferById_map_stamp:
  assumes "transfers s' = map (stampCompleted tid2 fr cred) (transfers s)"
  shows "transferById tid s' = map_option (stampCompleted tid2 fr cred) (transferById tid s)"
  unfolding transferById_def assms by (simp add: find_map_same)

text \<open>No operation touches a completed transfer: what it stored stays stored.\<close>

lemma completionStored_step:
  assumes st: "completionStored tid rm pair s"
  shows "completionStored tid rm pair (apply_operation op s)"
proof -
  from st obtain t where t: "transferById tid s = Some t"
    and done_t: "ts_status t = TransferCompleted"
    unfolding completionStored_def by (auto split: option.splits)
  from transferById_in[OF t] have mem: "t \<in> set (transfers s)" and idt: "ts_transfer_id t = tid"
    by simp_all
  have same: "completionStored tid rm pair s'" if "transferById tid s' = transferById tid s" for s'
    using st that unfolding completionStored_def by simp
  show ?thesis
  proof (cases op)
    case (CreateCall cn info draws)
    show ?thesis
    proof (cases "createCall cn info draws s")
      case (Inl e)
      with CreateCall st show ?thesis by simp
    next
      case (Inr res)
      obtain c s' where res: "res = (c, s')" by (cases res)
      from createCall_success[OF Inr[unfolded res]] have "transfers s' = transfers s" by simp
      then have "completionStored tid rm pair s'"
        by (intro same) (simp add: transferById_def)
      with CreateCall Inr res show ?thesis by simp
    qed
  next
    case (InitiateTransfer orig hint a b tr cn sm ids rms)
    show ?thesis
    proof (cases "initiateTransfer orig hint a b tr cn sm ids rms s")
      case (Inl e)
      with InitiateTransfer st show ?thesis by simp
    next
      case (Inr res)
      obtain r s' where res: "res = (r, s')" by (cases res)
      from initiateTransfer_success[OF Inr[unfolded res]]
      have fresh: "ts_transfer_id (started_transfer r) \<notin> set (map ts_transfer_id (transfers s))"
        and tr: "transfers s' = started_transfer r # transfers s" by blast+
      from fresh mem idt have "ts_transfer_id (started_transfer r) \<noteq> tid" by auto
      then have "completionStored tid rm pair s'"
        by (intro same) (simp add: transferById_def tr)
      with InitiateTransfer Inr res show ?thesis by simp
    qed
  next
    case (CompleteTransfer tid2 rm2 cn b)
    show ?thesis
    proof (cases "completeTransfer tid2 rm2 cn b s")
      case (Inl e)
      with CompleteTransfer st show ?thesis by simp
    next
      case (Inr res)
      obtain r s' where res: "res = (r, s')" by (cases res)
      from Inr[unfolded res] have "completionStored tid rm pair s'"
      proof (cases rule: completeTransfer_success)
        case (again t2)
        with st show ?thesis by simp
      next
        case (first t2 cred)
        have "tid2 \<noteq> tid"
        proof
          assume "tid2 = tid"
          with first(1) t have "t2 = t" by simp
          with first(2) done_t show False by simp
        qed
        with idt have "stampCompleted tid2 (ts_transfer_room t2) cred t = t"
          unfolding stampCompleted_def by simp
        then have "transferById tid s' = transferById tid s"
          unfolding transferById_map_stamp[OF first(5)] t by simp
        then show ?thesis by (rule same)
      qed
      with CompleteTransfer Inr res show ?thesis by simp
    qed
  qed
qed

lemma completionStored_later:
  "completionStored tid rm pair s \<Longrightarrow> completionStored tid rm pair (apply_operations ops s)"
  by (induction ops arbitrary: s) (simp_all add: completionStored_step)

text \<open>A successful completion leaves its result stored; a stored result is what a call returns.\<close>

lemma completeTransfer_stores:
  assumes "completeTransfer tid rm nm b s = Inr (r, s')"
  shows "completionStored tid rm r s'"
  using assms
proof (cases rule: completeTransfer_success)
  case (again t)
  then show ?thesis unfolding completionStored_def by simp
next
  case (first t cred)
  from transferById_in[OF first(1)] have idt: "ts_transfer_id t = tid" by simp
  have "transferById tid s' = Some (stampCompleted tid (ts_transfer_room t) cred t)"
    unfolding transferById_map_stamp[OF first(5)] first(1) by simp
  then show ?thesis
    unfolding completionStored_def using idt first(3,4) by (simp add: stampCompleted_def)
qed

lemma completeTransfer_returns_stored:
  assumes "completionStored tid rm pair s"
  shows "completeTransfer tid rm nm b s = Inr (pair, s)"
proof -
  from assms obtain t where "transferById tid s = Some t" "ts_status t = TransferCompleted"
    "ts_final_room t = Some (fst pair)" "ts_caller_credential t = Some (snd pair)"
    "ts_original_room t = rm"
    unfolding completionStored_def by (auto split: option.splits)
  from completeTransfer_completed[OF this] show ?thesis by simp
qed

text \<open>
  Claim C1. If \<open>completeTransfer\<close> succeeds, then after any further operations the
  same call returns the same final room and caller credential and leaves the
  registries, the mint clock included, as they are: nothing is minted and no room is
  created. And in every state the operations reach, every transfer that is
  \<open>completed\<close> holds a final room and a caller credential, and a call of
  \<open>completeTransfer\<close> for it, now or after any further operations, returns exactly that
  pair and leaves the registries unchanged.
\<close>

theorem completeTransfer_idempotent:
  "(completeTransfer transferId originalRoom callerName agentB s = Inr (r, s1)
      \<longrightarrow> completeTransfer transferId originalRoom callerName agentB (apply_operations ops s1)
            = Inr (r, apply_operations ops s1))
   \<and> (s = apply_operations ops0 empty_registries \<and> t \<in> set (transfers s)
        \<and> ts_status t = TransferCompleted
      \<longrightarrow> (\<exists>finalRoom cred. ts_final_room t = Some finalRoom
             \<and> ts_caller_credential t = Some cred
             \<and> completeTransfer (ts_transfer_id t) (ts_original_room t) anyName anyAgent
                  (apply_operations ops s)
                 = Inr ((finalRoom, cred), apply_operations ops s)))"
proof (intro conjI impI)
  assume "completeTransfer transferId originalRoom callerName agentB s = Inr (r, s1)"
  then have "completionStored transferId originalRoom r s1"
    by (rule completeTransfer_stores)
  then have "completionStored transferId originalRoom r (apply_operations ops s1)"
    by (rule completionStored_later)
  then show "completeTransfer transferId originalRoom callerName agentB (apply_operations ops s1)
            = Inr (r, apply_operations ops s1)"
    by (rule completeTransfer_returns_stored)
next
  assume h: "s = apply_operations ops0 empty_registries \<and> t \<in> set (transfers s)
        \<and> ts_status t = TransferCompleted"
  then have inv: "registry_inv s" using reachable_inv[of ops0] by blast
  from h have mem: "t \<in> set (transfers s)" and completed: "ts_status t = TransferCompleted"
    by blast+
  from inv mem have "stored_when_completed t"
    unfolding registry_inv_def by (simp add: list_all_iff)
  with completed obtain finalRoom cred where st: "ts_final_room t = Some finalRoom"
      "ts_caller_credential t = Some cred"
    unfolding stored_when_completed_def by auto
  from inv have "distinct (map ts_transfer_id (transfers s))"
    unfolding registry_inv_def by simp
  from distinct_find_self[OF this mem]
  have found: "transferById (ts_transfer_id t) s = Some t"
    unfolding transferById_def .
  have "completionStored (ts_transfer_id t) (ts_original_room t) (finalRoom, cred) s"
    unfolding completionStored_def using found completed st by simp
  then have "completionStored (ts_transfer_id t) (ts_original_room t) (finalRoom, cred)
      (apply_operations ops s)"
    by (rule completionStored_later)
  then have "completeTransfer (ts_transfer_id t) (ts_original_room t) anyName anyAgent
                  (apply_operations ops s)
                 = Inr ((finalRoom, cred), apply_operations ops s)"
    by (rule completeTransfer_returns_stored)
  with st show "\<exists>finalRoom cred. ts_final_room t = Some finalRoom
             \<and> ts_caller_credential t = Some cred
             \<and> completeTransfer (ts_transfer_id t) (ts_original_room t) anyName anyAgent
                  (apply_operations ops s)
                 = Inr ((finalRoom, cred), apply_operations ops s)" by blast
qed

lemma jane_completed_value:
  "jane_completed =
     \<lparr>calls = [\<lparr>cs_call_id = ''C1'', cs_caller_name = ''Jane Doe'', cs_caller_info = ''billing'',
                 cs_room_name = ''R1'', cs_status = CallCompleted, cs_created_at = 0\<rparr>],
      transfers = [\<lparr>ts_transfer_id = ''T1'', ts_original_room = ''R1'',
                     ts_caller_name = ''Jane Doe'', ts_agent_b = ''bob'',
                     ts_transfer_room = ''transfer_1'',
                     ts_summary = ''Summary: billing issue'',
                     ts_script = ''Script: billing issue'', ts_status = TransferCompleted,
                     ts_created_at = 3, ts_final_room = Some ''transfer_1'',
                     ts_caller_credential = Some jane_credential\<rparr>],
      clock = 5\<rparr>"
  using jane_complete_value unfolding jane_briefing_value jane_credential_def
  by (simp add: registry_eval)

lemma roe_calls_value:
  "apply_operations roe_calls jane_completed =
     \<lparr>calls = [\<lparr>cs_call_id = ''C2'', cs_caller_name = ''Bob Roe'', cs_caller_info = ''refund'',
                 cs_room_name = ''R2'', cs_status = CallCompleted, cs_created_at = 5\<rparr>,
               \<lparr>cs_call_id = ''C1'', cs_caller_name = ''Jane Doe'', cs_caller_info = ''billing'',
                 cs_room_name = ''R1'', cs_status = CallCompleted, cs_created_at = 0\<rparr>],
      transfers = [\<lparr>ts_transfer_id = ''T2'', ts_original_room = ''R2'',
                     ts_caller_name = ''Bob Roe'', ts_agent_b = ''carol'',
                     ts_transfer_room = ''transfer_2'',
                     ts_summary = ''Summary: refund request'',
                     ts_script = ''Script: refund request'', ts_status = TransferCompleted,
                     ts_created_at = 8, ts_final_room = Some ''transfer_2'',
                     ts_caller_credential = Some \<lparr>cred_identity = ''Bob Roe'',
                       cred_room = ''transfer_2'', cred_minted_at = 9\<rparr>\<rparr>,
                   \<lparr>ts_transfer_id = ''T1'', ts_original_room = ''R1'',
                     ts_caller_name = ''Jane Doe'', ts_agent_b = ''bob'',
                     ts_transfer_room = ''transfer_1'',
                     ts_summary = ''Summary: billing issue'',
                     ts_script = ''Script: billing issue'', ts_status = TransferCompleted,
                     ts_created_at = 3, ts_final_room = Some ''transfer_1'',
                     ts_caller_credential = Some jane_credential\<rparr>],
      clock = 10\<rparr>"
  unfolding jane_completed_value roe_calls_def demo_summarize_def jane_credential_def
  by (simp add: registry_eval)

text \<open>
  Jane Doe's transfer completes; then Bob Roe calls, is transferred and completed. A
  retry of Jane Doe's completion still returns \<open>transfer_1\<close> and her credential, and
  Bob Roe's transfer returns its own pair.
\<close>

theorem completeTransfer_idempotent_witness:
  "completeTransfer ''T1'' ''R1'' ''Jane Doe'' ''bob'' jane_briefing
     = Inr ((''transfer_1'', jane_credential), jane_completed)
   \<and> length (transfers (apply_operations roe_calls jane_completed)) = 2
   \<and> clock (apply_operations roe_calls jane_completed) = 10
   \<and> completeTransfer ''T1'' ''R1'' ''Jane Doe'' ''bob'' (apply_operations roe_calls jane_completed)
     = Inr ((''transfer_1'', jane_credential), apply_operations roe_calls jane_completed)
   \<and> completeTransfer ''T2'' ''R2'' ''Bob Roe'' ''carol'' (apply_operations roe_calls jane_completed)
     = Inr ((''transfer_2'',
             \<lparr>cred_identity = ''Bob Roe'', cred_room = ''transfer_2'', cred_minted_at = 9\<rparr>),
            apply_operations roe_calls jane_completed)"
proof -
  let ?later = "apply_operations roe_calls jane_completed"
  have later: "?later = apply_operations (jane_calls
      @ [CompleteTransfer ''T1'' ''R1'' ''Jane Doe'' ''bob''] @ roe_calls) empty_registries"
    unfolding jane_completed_def by (simp add: apply_operations_append)
  have t2: "hd (transfers ?later) \<in> set (transfers ?later)"
    "ts_status (hd (transfers ?later)) = TransferCompleted"
    "ts_transfer_id (hd (transfers ?later)) = ''T2''"
    "ts_original_room (hd (transfers ?later)) = ''R2''"
    "ts_final_room (hd (transfers ?later)) = Some ''transfer_2''"
    "ts_caller_credential (hd (transfers ?later))
       = Some \<lparr>cred_identity = ''Bob Roe'', cred_room = ''transfer_2'', cred_minted_at = 9\<rparr>"
    "length (transfers ?later) = 2" "clock ?later = 10"
    unfolding roe_calls_value by simp_all
  note retry = completeTransfer_idempotent[where transferId = "''T1''" and originalRoom = "''R1''"
      and callerName = "''Jane Doe''" and agentB = "''bob''" and s = jane_briefing
      and r = "(''transfer_1'', jane_credential)" and ?s1.0 = jane_completed and ops = roe_calls,
      THEN conjunct1, rule_format]
  have a: "completeTransfer ''T1'' ''R1'' ''Jane Doe'' ''bob'' ?later
     = Inr ((''transfer_1'', jane_credential), ?later)"
    by (rule retry[OF jane_complete_value])
  note stored = completeTransfer_idempotent[where s = ?later and ops = "[]"
      and ops0 = "jane_calls @ [CompleteTransfer ''T1'' ''R1'' ''Jane Doe'' ''bob''] @ roe_calls"
      and t = "hd (transfers ?later)" and anyName = "''Bob Roe''" and anyAgent = "''carol''",
      THEN conjunct2, rule_format]
  from stored[OF conjI[OF later conjI[OF t2(1) t2(2)]]]
  obtain finalRoom cred where
    "ts_final_room (hd (transfers ?later)) = Some finalRoom"
    "ts_caller_credential (hd (transfers ?later)) = Some cred"
    "completeTransfer (ts_transfer_id (hd (transfers ?later)))
       (ts_original_room (hd (transfers ?later))) ''Bob Roe'' ''carol''
       (apply_operations [] ?later) = Inr ((finalRoom, cred), apply_operations [] ?later)"
    by blast
  then have b: "completeTransfer ''T2'' ''R2'' ''Bob Roe'' ''carol'' ?later
     = Inr ((''transfer_2'',
             \<lparr>cred_identity = ''Bob Roe'', cred_room = ''transfer_2'', cred_minted_at = 9\<rparr>),
            ?later)"
    unfolding t2(3,4,5,6) by (simp only: apply_operations.simps option.inject)
  show ?thesis
    by (intro conjI) (rule jane_complete_value, rule t2(7), rule t2(8), rule a, rule b)
qed

lemma distinct_filter_le_one:
  "distinct (map f xs) \<Longrightarrow> length (filter (\<lambda>x. f x = v) xs) \<le> Suc 0"
proof (induction xs)
  case Nil
  then show ?case by simp
next
  case (Cons x xs)
  show ?case
  proof (cases "f x = v")
    case True
    with Cons.prems have "filter (\<lambda>y. f y = v) xs = []"
      by (auto simp: filter_empty_conv image_iff)
    with True show ?thesis by simp
  next
    case False
    with Cons show ?thesis by simp
  qed
qed

lemma initiateTransfer_not_active:
  assumes "callInRoom rm s = Some c" "cs_status c \<noteq> CallActive"
  shows "initiateTransfer rm hint a b tr nm sm ids rms s = Inl InvalidStateError"
  using assms unfolding initiateTransfer_def by simp

text \<open>
  Claim C2. In every state the operations reach, initiating a transfer from the room
  of a call that is \<open>transferring\<close> or \<open>completed\<close> fails with \<open>InvalidStateError\<close> and
  leaves the registries unchanged; and at most one Transfer Session refers to any
  original room.
\<close>

theorem second_transfer_rejected:
  assumes "s = apply_operations ops empty_registries"
  shows "(c \<in> set (calls s) \<and> cs_status c \<noteq> CallActive
        \<longrightarrow> initiateTransfer (cs_room_name c) hint agentA agentB transcriptText callerName
              summarize idDraws roomDraws s = Inl InvalidStateError
            \<and> apply_operation (InitiateTransfer (cs_room_name c) hint agentA agentB transcriptText
                callerName summarize idDraws roomDraws) s = s)
     \<and> length (filter (\<lambda>t. ts_original_room t = originalRoom) (transfers s)) \<le> 1"
proof -
  have inv: "registry_inv s" unfolding assms by (rule reachable_inv)
  then have rooms: "distinct (map cs_room_name (calls s))"
    and origs: "distinct (map ts_original_room (transfers s))"
    unfolding registry_inv_def room_names_def by simp_all
  have "initiateTransfer (cs_room_name c) hint agentA agentB transcriptText callerName
              summarize idDraws roomDraws s = Inl InvalidStateError"
    if "c \<in> set (calls s)" "cs_status c \<noteq> CallActive"
  proof -
    have "callInRoom (cs_room_name c) s = Some c"
      unfolding callInRoom_def by (rule distinct_find_self[OF rooms that(1)])
    then show ?thesis using that(2) by (rule initiateTransfer_not_active)
  qed
  moreover have "length (filter (\<lambda>t. ts_original_room t = originalRoom) (transfers s)) \<le> 1"
    using distinct_filter_le_one[OF origs] by simp
  ultimately show ?thesis by simp
qed

theorem second_transfer_rejected_witness:
  "jane_briefing = apply_operations jane_calls empty_registries
   \<and> cs_status (hd (calls jane_briefing)) = CallTransferring
   \<and> initiateTransfer ''R1'' ''transfer_2'' ''agent_a'' ''carol'' ''again'' ''Jane Doe''
        demo_summarize [''T2''] [] jane_briefing = Inl InvalidStateError
   \<and> length (filter (\<lambda>t. ts_original_room t = ''R1'') (transfers jane_briefing)) = 1"
proof -
  have v: "hd (calls jane_briefing) \<in> set (calls jane_briefing)"
    "cs_status (hd (calls jane_briefing)) = CallTransferring"
    "cs_room_name (hd (calls jane_briefing)) = ''R1''"
    "length (filter (\<lambda>t. ts_original_room t = ''R1'') (transfers jane_briefing)) = 1"
    unfolding jane_briefing_value by simp_all
  show ?thesis
    using v second_transfer_rejected[OF jane_briefing_def, of "hd (calls jane_briefing)"
        "''transfer_2''" "''agent_a''" "''carol''" "''again''" "''Jane Doe''" demo_summarize
        "[''T2'']" "[]" "''R1''"]
    by (simp add: jane_briefing_def)
qed

end
